theory Spec2Isabelle
  imports Complex_Main "HOL-Library.Multiset"
begin

section \<open>Numbers of the source language\<close>

text \<open>
  The page is TypeScript; its \<open>number\<close> is a double. It is modelled as a real number
  extended by the three special values the source can produce or writes down itself
  (\<open>Infinity\<close>, \<open>-Infinity\<close> and \<open>NaN\<close>). A product or quotient of finite values is the
  exact result rounded to the nearest double, as the arithmetic of the language rounds
  it. Overflow to \<open>Infinity\<close> and the sign of zero are not modelled.
\<close>

datatype number = NaN | NegInf | Fin real | PosInf

subsection \<open>Rounding to a double\<close>

text \<open>The power of two with an integer exponent.\<close>

definition pow2 :: "int \<Rightarrow> real" where
  "pow2 k = (if 0 \<le> k then 2 ^ nat k else 1 / 2 ^ nat (- k))"

text \<open>The number of binary digits of a natural number.\<close>

fun bit_length :: "nat \<Rightarrow> nat" where
  "bit_length n = (if n = 0 then 0 else Suc (bit_length (n div 2)))"

declare bit_length.simps [simp del]

text \<open>
  The binary exponent of a positive real \<open>v\<close>: the \<open>k\<close> with \<open>2^k \<le> v < 2^(k+1)\<close>, read
  off the integer part of \<open>v\<close>, or of \<open>1 / v\<close> when \<open>v\<close> is below 1.
\<close>

definition exponent :: "real \<Rightarrow> int" where
  "exponent v =
    (if 1 \<le> v then int (bit_length (nat \<lfloor>v\<rfloor>)) - 1
     else let k = int (bit_length (nat \<lfloor>1 / v\<rfloor>)) in
          if v * pow2 (k - 1) = 1 then 1 - k else - k)"

text \<open>The nearest integer, a tie going to the even one.\<close>

definition round_half_even :: "real \<Rightarrow> int" where
  "round_half_even m =
    (let f = \<lfloor>m\<rfloor>; d = m - of_int f in
     if d < 1 / 2 then f else if 1 / 2 < d then f + 1 else if even f then f else f + 1)"

text \<open>
  The nearest double (binary64, round to nearest, ties to even): 53 significant binary
  digits, so a spacing of \<open>2^(e - 52)\<close> in the binade of exponent \<open>e\<close>, and the spacing
  \<open>2^(-1074)\<close> of the subnormal numbers below \<open>2^(-1022)\<close>.
\<close>

definition to_double :: "real \<Rightarrow> real" where
  "to_double v =
    (if v = 0 then 0
     else let ulp = pow2 (max (exponent \<bar>v\<bar>) (- 1022) - 52)
          in of_int (round_half_even (v / ulp)) * ulp)"

subsection \<open>Arithmetic and comparison\<close>

text \<open>The sign of a number, and the infinity (or \<open>NaN\<close>) that has a given sign.\<close>

fun sign_of :: "number \<Rightarrow> real" where
  "sign_of NaN = 0"
| "sign_of NegInf = - 1"
| "sign_of (Fin r) = sgn r"
| "sign_of PosInf = 1"

definition inf_of_sign :: "real \<Rightarrow> number" where
  "inf_of_sign s = (if 0 < s then PosInf else if s < 0 then NegInf else NaN)"

text \<open>\<open>a * b\<close>, rounded: an infinity times zero is \<open>NaN\<close>.\<close>

fun num_mul :: "number \<Rightarrow> number \<Rightarrow> number" where
  "num_mul NaN b = NaN"
| "num_mul a NaN = NaN"
| "num_mul (Fin x) (Fin y) = Fin (to_double (x * y))"
| "num_mul a b = inf_of_sign (sign_of a * sign_of b)"

text \<open>
  \<open>a / b\<close>, rounded: a finite non-zero value over zero is an infinity, zero over zero
  and an infinity over an infinity are \<open>NaN\<close>.
\<close>

fun num_div :: "number \<Rightarrow> number \<Rightarrow> number" where
  "num_div NaN b = NaN"
| "num_div a NaN = NaN"
| "num_div (Fin x) (Fin y) = (if y = 0 then inf_of_sign (sgn x) else Fin (to_double (x / y)))"
| "num_div (Fin x) b = Fin 0"
| "num_div a (Fin y) = (if y < 0 then inf_of_sign (- sign_of a) else a)"
| "num_div a b = NaN"

text \<open>
  \<open>a - b\<close>: the difference of two infinities of the same sign is \<open>NaN\<close>. The source
  subtracts in its sort comparators only, where the sign of the difference decides, and
  rounding the difference of two doubles does not change its sign: it is left exact.
\<close>

fun num_sub :: "number \<Rightarrow> number \<Rightarrow> number" where
  "num_sub NaN b = NaN"
| "num_sub a NaN = NaN"
| "num_sub (Fin x) (Fin y) = Fin (x - y)"
| "num_sub PosInf PosInf = NaN"
| "num_sub NegInf NegInf = NaN"
| "num_sub PosInf b = PosInf"
| "num_sub NegInf b = NegInf"
| "num_sub a PosInf = NegInf"
| "num_sub a NegInf = PosInf"

text \<open>Comparisons: every comparison with \<open>NaN\<close> is false.\<close>

fun num_less :: "number \<Rightarrow> number \<Rightarrow> bool" where
  "num_less NaN b = False"
| "num_less a NaN = False"
| "num_less (Fin x) (Fin y) = (x < y)"
| "num_less a NegInf = False"
| "num_less NegInf b = True"
| "num_less PosInf b = False"
| "num_less a PosInf = True"

fun num_le :: "number \<Rightarrow> number \<Rightarrow> bool" where
  "num_le NaN b = False"
| "num_le a NaN = False"
| "num_le a b = (a = b \<or> num_less a b)"

definition num_ge :: "number \<Rightarrow> number \<Rightarrow> bool" where
  "num_ge a b = num_le b a"

definition num_gt :: "number \<Rightarrow> number \<Rightarrow> bool" where
  "num_gt a b = num_less b a"

text \<open>
  \<open>Math.round\<close>: the nearest integer, a tie going up; \<open>Math.max\<close>: \<open>NaN\<close> as soon as
  an argument is \<open>NaN\<close>.
\<close>

fun Math_round :: "number \<Rightarrow> number" where
  "Math_round (Fin r) = Fin (of_int \<lfloor>r + 1 / 2\<rfloor>)"
| "Math_round a = a"

fun Math_max :: "number \<Rightarrow> number \<Rightarrow> number" where
  "Math_max NaN b = NaN"
| "Math_max a NaN = NaN"
| "Math_max a b = (if num_less a b then b else a)"

text \<open>A number is falsy when it is zero or \<open>NaN\<close>; \<open>a || b\<close> is \<open>a\<close> unless \<open>a\<close> is falsy.\<close>

fun truthy :: "number \<Rightarrow> bool" where
  "truthy NaN = False"
| "truthy (Fin r) = (r \<noteq> 0)"
| "truthy a = True"

definition or_else :: "number \<Rightarrow> number \<Rightarrow> number" where
  "or_else a b = (if truthy a then a else b)"

text \<open>\<open>v ?? d\<close>: the default \<open>d\<close> when \<open>v\<close> is \<open>null\<close> or \<open>undefined\<close>.\<close>

fun nullish :: "'a option \<Rightarrow> 'a \<Rightarrow> 'a" where
  "nullish None d = d"
| "nullish (Some v) d = v"

section \<open>Coordinate mapping\<close>

datatype crop_unit = Px | Pct

text \<open>
  \<open>Crop\<close> of the crop widget: a unit and four coordinates, any of which the source
  allows to be absent (\<open>c.x ?? 0\<close>). \<open>PixelCrop\<close> is a crop of unit \<open>px\<close> with all
  four coordinates.
\<close>

record Crop =
  unit :: crop_unit
  x :: "number option"
  y :: "number option"
  width :: "number option"
  height :: "number option"

record PixelCrop =
  px_x :: number
  px_y :: number
  px_width :: number
  px_height :: number

text \<open>
  What \<open>toPixelCrop\<close> reads of the image element: the natural size and the element's
  \<open>width\<close>/\<open>height\<close> (unsigned integers in the DOM) and the size of its bounding
  rectangle.
\<close>

record HTMLImageElement =
  naturalWidth :: nat
  naturalHeight :: nat
  img_width :: nat
  img_height :: nat
  rect_width :: real
  rect_height :: real

definition toPixelCrop :: "Crop \<Rightarrow> HTMLImageElement \<Rightarrow> PixelCrop" where
  "toPixelCrop c img =
    (let naturalW = Fin (real (naturalWidth img));
         naturalH = Fin (real (naturalHeight img));
         renderedW = or_else (or_else (Fin (real (img_width img))) (Fin (rect_width img))) naturalW;
         renderedH = or_else (or_else (Fin (real (img_height img))) (Fin (rect_height img))) naturalH;
         scaleX = num_div naturalW renderedW;
         scaleY = num_div naturalH renderedH;
         isPct = (unit c = Pct);
         rx = nullish (x c) (Fin 0);
         ry = nullish (y c) (Fin 0);
         rw = nullish (width c) (Fin 0);
         rh = nullish (height c) (Fin 0);
         px = Math_round (if isPct then num_mul (num_div rx (Fin 100)) naturalW else num_mul rx scaleX);
         py = Math_round (if isPct then num_mul (num_div ry (Fin 100)) naturalH else num_mul ry scaleY);
         pw = Math_round (if isPct then num_mul (num_div rw (Fin 100)) naturalW else num_mul rw scaleX);
         ph = Math_round (if isPct then num_mul (num_div rh (Fin 100)) naturalH else num_mul rh scaleY)
     in \<lparr>px_x = Math_max (Fin 0) px,
         px_y = Math_max (Fin 0) py,
         px_width = Math_max (Fin 1) pw,
         px_height = Math_max (Fin 1) ph\<rparr>)"

definition pixelToPercentCropWithSize :: "PixelCrop \<Rightarrow> number \<Rightarrow> number \<Rightarrow> Crop" where
  "pixelToPercentCropWithSize px naturalW naturalH =
    \<lparr>unit = Pct,
     x = Some (num_mul (num_div (px_x px) naturalW) (Fin 100)),
     y = Some (num_mul (num_div (px_y px) naturalH) (Fin 100)),
     width = Some (num_mul (num_div (px_width px) naturalW) (Fin 100)),
     height = Some (num_mul (num_div (px_height px) naturalH) (Fin 100))\<rparr>"

text \<open>
  A selection given by its unit and its coordinates, each absent or a real number.
\<close>

definition selection :: "crop_unit \<Rightarrow> real option \<Rightarrow> real option \<Rightarrow> real option \<Rightarrow> real option \<Rightarrow> Crop" where
  "selection u a b w h =
    \<lparr>unit = u, x = map_option Fin a, y = map_option Fin b,
     width = map_option Fin w, height = map_option Fin h\<rparr>"

text \<open>
  The round trip on reopening the editor: the pixel rectangle of a selection, presented
  again in percent of the image's natural size.
\<close>

definition round_trip :: "Crop \<Rightarrow> HTMLImageElement \<Rightarrow> Crop" where
  "round_trip s img =
     pixelToPercentCropWithSize (toPixelCrop s img)
       (Fin (real (naturalWidth img))) (Fin (real (naturalHeight img)))"

text \<open>
  The round-trip law in the specification's words. Rounding to the nearest whole pixel
  moves a value by at most half a pixel, which is \<open>50 / n\<close> percent of \<open>n\<close> pixels: a
  coordinate is recovered within rounding tolerance when it comes back as a finite
  number at most that far from the original.
\<close>

definition within_half_pixel :: "nat \<Rightarrow> number option \<Rightarrow> number option \<Rightarrow> bool" where
  "within_half_pixel n orig rec =
    (case orig of
       Some (Fin a) \<Rightarrow> (case rec of Some (Fin a') \<Rightarrow> \<bar>a' - a\<bar> \<le> 50 / real n | _ \<Rightarrow> False)
     | _ \<Rightarrow> False)"

definition round_trip_law :: "Crop \<Rightarrow> HTMLImageElement \<Rightarrow> bool" where
  "round_trip_law s img =
    (let r = round_trip s img in
     within_half_pixel (naturalWidth img) (x s) (x r) \<and>
     within_half_pixel (naturalHeight img) (y s) (y r) \<and>
     within_half_pixel (naturalWidth img) (width s) (width r) \<and>
     within_half_pixel (naturalHeight img) (height s) (height r))"

text \<open>
  Two abbreviations for the proofs: the rendered size that \<open>toPixelCrop\<close> settles on, and
  the value it rounds for one coordinate.
\<close>

definition rendered :: "nat \<Rightarrow> real \<Rightarrow> nat \<Rightarrow> real" where
  "rendered w rw n = (if w \<noteq> 0 then real w else if rw \<noteq> 0 then rw else real n)"

definition pixel_value :: "bool \<Rightarrow> real \<Rightarrow> real \<Rightarrow> real \<Rightarrow> real" where
  "pixel_value p a n r =
    (if p then to_double (to_double (a / 100) * n) else to_double (a * to_double (n / r)))"

text \<open>An image of natural size 50 by 25, shown at that size.\<close>

definition small_image :: HTMLImageElement where
  "small_image =
    \<lparr>naturalWidth = 50, naturalHeight = 25, img_width = 50, img_height = 25,
     rect_width = 50, rect_height = 25\<rparr>"

text \<open>An image of natural size 1000 by 800, shown at half that size.\<close>

definition example_image :: HTMLImageElement where
  "example_image =
    \<lparr>naturalWidth = 1000, naturalHeight = 800, img_width = 500, img_height = 400,
     rect_width = 500, rect_height = 400\<rparr>"

section \<open>Search client\<close>

text \<open>
  Strings are lists of characters; a character stands for one code unit below 256, so
  that the letter a-umlaut of the label \<open>Sehr aehnlich\<close> is the character \<open>0xE4\<close>.
\<close>

text \<open>One search result, as the backend's JSON gives it. Every field but the
  identifier may be \<open>null\<close> or missing; a price or score that is present is a finite
  JSON number.\<close>

record Hit =
  product_id :: int
  score :: "real option"
  label :: "string option"
  title :: "string option"
  price :: "real option"
  currency :: "string option"
  merchant :: "string option"
  deeplink :: "string option"
  image_url :: "string option"

text \<open>\<open>SearchResponse\<close>: an object with an optional \<open>results\<close> array.\<close>

type_synonym SearchResponse = "Hit list option"

text \<open>
  A response of \<open>fetch\<close>: status, reason phrase, the body as text (\<open>None\<close> when
  reading it fails) and the body parsed as JSON (\<open>None\<close> when parsing fails).
\<close>

record Response =
  status :: nat
  statusText :: string
  text_body :: "string option"
  json_body :: "SearchResponse option"

definition ok :: "Response \<Rightarrow> bool" where
  "ok r = (200 \<le> status r \<and> status r \<le> 299)"

text \<open>
  The network as \<open>runSearchByUpload\<close> sees it: \<open>fetch\<close> of a URL either rejects
  (no connection, or the abort of the 60 second timer) or resolves to a response.
\<close>

datatype fetch_result = Rejected | Resolved Response

text \<open>
  The errors \<open>runSearchByUpload\<close> throws, one constructor for each message of the
  source: configuration missing, network failure, search unavailable (503), any other
  status with its reason and body, no endpoint found (404 everywhere) with the last body;
  \<open>JsonError\<close> is the rejection of \<open>r.json()\<close>.
\<close>

datatype search_error =
    ConfigError
  | NetworkError
  | ServiceUnavailable
  | HttpError nat string string
  | NotFoundError string
  | JsonError

record Env =
  NEXT_PUBLIC_API_BASE :: "string option"
  NEXT_PUBLIC_BACKEND_URL :: "string option"

text \<open>\<open>a ?? b\<close> on two optional values.\<close>

fun coalesce :: "'a option \<Rightarrow> 'a option \<Rightarrow> 'a option" where
  "coalesce (Some v) b = Some v"
| "coalesce None b = b"

text \<open>\<open>!base\<close>: the base is \<open>undefined\<close> or the empty string.\<close>

fun falsy_string :: "string option \<Rightarrow> bool" where
  "falsy_string None = True"
| "falsy_string (Some s) = (s = [])"

definition paths :: "string list" where
  "paths = [''/search/by-upload'', ''/search/image'']"

text \<open>
  The outcome of one search: the value returned or the error thrown, and the URLs that
  were requested, in order.
\<close>

type_synonym search_outcome = "(search_error + SearchResponse) \<times> string list"

definition requested :: "string \<Rightarrow> search_outcome \<Rightarrow> search_outcome" where
  "requested url out = (fst out, url # snd out)"

text \<open>The loop over the candidate paths; \<open>lastText\<close> is the loop's variable.\<close>

fun try_paths :: "(string \<Rightarrow> fetch_result) \<Rightarrow> string \<Rightarrow> string \<Rightarrow> string list \<Rightarrow> search_outcome" where
  "try_paths fetch base lastText [] = (Inl (NotFoundError lastText), [])"
| "try_paths fetch base lastText (p # ps) =
    requested (base @ p)
      (case fetch (base @ p) of
         Rejected \<Rightarrow> (Inl NetworkError, [])
       | Resolved r \<Rightarrow>
           if ok r then (case json_body r of None \<Rightarrow> (Inl JsonError, []) | Some d \<Rightarrow> (Inr d, []))
           else
             let lastText' = nullish (text_body r) [] in
             if status r = 503 then (Inl ServiceUnavailable, [])
             else if status r \<noteq> 404 then (Inl (HttpError (status r) (statusText r) lastText'), [])
             else try_paths fetch base lastText' ps)"

definition runSearchByUpload :: "Env \<Rightarrow> (string \<Rightarrow> fetch_result) \<Rightarrow> search_outcome" where
  "runSearchByUpload env fetch =
    (let base = coalesce (NEXT_PUBLIC_API_BASE env) (NEXT_PUBLIC_BACKEND_URL env) in
     if falsy_string base then (Inl ConfigError, [])
     else try_paths fetch (nullish base []) [] paths)"

text \<open>A candidate path answers 404 when its request resolves to a response of status 404.\<close>

definition answers_404 :: "(string \<Rightarrow> fetch_result) \<Rightarrow> string \<Rightarrow> string \<Rightarrow> bool" where
  "answers_404 fetch base p = (case fetch (base @ p) of Rejected \<Rightarrow> False | Resolved r \<Rightarrow> status r = 404)"

text \<open>The value of \<open>lastText\<close> after the loop has passed the candidates \<open>ps\<close>.\<close>

fun body_after :: "(string \<Rightarrow> fetch_result) \<Rightarrow> string \<Rightarrow> string \<Rightarrow> string list \<Rightarrow> string" where
  "body_after fetch base lastText [] = lastText"
| "body_after fetch base lastText (p # ps) =
     body_after fetch base
       (case fetch (base @ p) of Rejected \<Rightarrow> lastText | Resolved r \<Rightarrow> nullish (text_body r) []) ps"

text \<open>
  The base address in the specification's words: the first of the two variables, in
  their order, whose value is not empty.
\<close>

definition first_non_empty :: "Env \<Rightarrow> string option" where
  "first_non_empty env =
    (case filter (\<lambda>v. v \<noteq> None \<and> v \<noteq> Some []) [NEXT_PUBLIC_API_BASE env, NEXT_PUBLIC_BACKEND_URL env] of
       [] \<Rightarrow> None | v # _ \<Rightarrow> v)"

text \<open>Example servers and configurations.\<close>

definition response :: "nat \<Rightarrow> string \<Rightarrow> string \<Rightarrow> Response" where
  "response st reason body = \<lparr>status = st, statusText = reason, text_body = Some body, json_body = None\<rparr>"

definition example_env :: Env where
  "example_env = \<lparr>NEXT_PUBLIC_API_BASE = Some ''http://api'', NEXT_PUBLIC_BACKEND_URL = None\<rparr>"

definition empty_first_env :: Env where
  "empty_first_env = \<lparr>NEXT_PUBLIC_API_BASE = Some [], NEXT_PUBLIC_BACKEND_URL = Some ''http://api''\<rparr>"

definition fetch_ok :: "string \<Rightarrow> fetch_result" where
  "fetch_ok url = Resolved \<lparr>status = 200, statusText = ''OK'', text_body = Some ''{}'', json_body = Some None\<rparr>"

definition fetch_503_first :: "string \<Rightarrow> fetch_result" where
  "fetch_503_first url =
    (if url = ''http://api/search/by-upload'' then Resolved (response 503 ''Service Unavailable'' ''busy'')
     else fetch_ok url)"

definition fetch_all_404 :: "string \<Rightarrow> fetch_result" where
  "fetch_all_404 url =
    (if url = ''http://api/search/by-upload'' then Resolved (response 404 ''Not Found'' ''first'')
     else Resolved (response 404 ''Not Found'' ''second''))"

definition fetch_404_then_500 :: "string \<Rightarrow> fetch_result" where
  "fetch_404_then_500 url =
    (if url = ''http://api/search/by-upload'' then Resolved (response 404 ''Not Found'' ''first'')
     else Resolved (response 500 ''Internal Server Error'' ''boom''))"

section \<open>Result pipeline\<close>

subsection \<open>Dedupe\<close>

text \<open>An integer as the template string prints it: decimal digits, a minus sign first
  when negative.\<close>

definition digit_char :: "nat \<Rightarrow> char" where
  "digit_char d = ''0123456789'' ! d"

fun decimal :: "nat \<Rightarrow> string" where
  "decimal n = (if n < 10 then [digit_char n] else decimal (n div 10) @ [digit_char (n mod 10)])"

declare decimal.simps [simp del]

definition number_to_string :: "int \<Rightarrow> string" where
  "number_to_string i = (if i < 0 then CHR ''-'' # decimal (nat (- i)) else decimal (nat i))"

text \<open>The key of a hit: identifier, link and image joined by hyphens.\<close>

definition hit_key :: "Hit \<Rightarrow> string" where
  "hit_key h = number_to_string (product_id h) @ ''-'' @ nullish (deeplink h) [] @ ''-'' @ nullish (image_url h) []"

text \<open>The filter of \<open>dedupedResults\<close>, with the set \<open>seen\<close> passed along.\<close>

fun dedupe_from :: "string set \<Rightarrow> Hit list \<Rightarrow> Hit list" where
  "dedupe_from seen [] = []"
| "dedupe_from seen (h # hs) =
    (let k = hit_key h in
     if k \<in> seen then dedupe_from seen hs
     else h # dedupe_from (insert k seen) hs)"

definition dedupedResults :: "Hit list \<Rightarrow> Hit list" where
  "dedupedResults results = dedupe_from {} results"

text \<open>The composite key the specification speaks of.\<close>

definition key_triple :: "Hit \<Rightarrow> int \<times> string \<times> string" where
  "key_triple h = (product_id h, nullish (deeplink h) [], nullish (image_url h) [])"

subsection \<open>Sort\<close>

datatype SortKey = relevance | priceAsc | priceDesc | scoreDesc | scoreAsc

text \<open>
  \<open>Array.prototype.sort\<close> with a comparator: a stable sort, in which \<open>a\<close> goes after
  \<open>b\<close> when \<open>cmp a b\<close> is positive, and a comparator result of \<open>NaN\<close> counts as zero.
  With a consistent comparator every stable sort gives the list that insertion gives.
\<close>

fun sort_insert :: "('a \<Rightarrow> 'a \<Rightarrow> number) \<Rightarrow> 'a \<Rightarrow> 'a list \<Rightarrow> 'a list" where
  "sort_insert cmp a [] = [a]"
| "sort_insert cmp a (b # bs) =
    (if num_gt (cmp a b) (Fin 0) then b # sort_insert cmp a bs else a # b # bs)"

definition Array_sort :: "('a \<Rightarrow> 'a \<Rightarrow> number) \<Rightarrow> 'a list \<Rightarrow> 'a list" where
  "Array_sort cmp arr = foldr (sort_insert cmp) arr []"

text \<open>\<open>h.price ?? d\<close> and \<open>h.score ?? d\<close> as numbers.\<close>

definition price_or :: "Hit \<Rightarrow> number \<Rightarrow> number" where
  "price_or h d = (case price h of None \<Rightarrow> d | Some p \<Rightarrow> Fin p)"

definition score_or :: "Hit \<Rightarrow> number \<Rightarrow> number" where
  "score_or h d = (case score h of None \<Rightarrow> d | Some s \<Rightarrow> Fin s)"

fun sortedResults :: "SortKey \<Rightarrow> Hit list \<Rightarrow> Hit list" where
  "sortedResults priceAsc deduped =
     Array_sort (\<lambda>a b. num_sub (price_or a PosInf) (price_or b PosInf)) deduped"
| "sortedResults priceDesc deduped =
     Array_sort (\<lambda>a b. num_sub (price_or b NegInf) (price_or a NegInf)) deduped"
| "sortedResults scoreDesc deduped =
     Array_sort (\<lambda>a b. num_sub (score_or b (Fin 0)) (score_or a (Fin 0))) deduped"
| "sortedResults scoreAsc deduped =
     Array_sort (\<lambda>a b. num_sub (score_or a (Fin 0)) (score_or b (Fin 0))) deduped"
| "sortedResults relevance deduped = deduped"

subsection \<open>Filter\<close>

datatype LabelBucket = Exact | Sehr_aehnlich | Alternative

definition label_Exact :: string where
  "label_Exact = ''Exact''"

definition label_Sehr_aehnlich :: string where
  "label_Sehr_aehnlich = ''Sehr '' @ [CHR 0xE4] @ ''hnlich''"

definition normalizeBucket :: "string option \<Rightarrow> LabelBucket" where
  "normalizeBucket lbl =
    (if lbl = Some label_Exact then Exact
     else if lbl = Some label_Sehr_aehnlich then Sehr_aehnlich
     else Alternative)"

text \<open>
  The string functions of the filter. White space is the tab, the line feed, the
  vertical tab, the form feed, the carriage return, the space and the no-break space;
  lower-casing maps the capital letters below 256 to their small letters.
\<close>

definition is_space :: "char \<Rightarrow> bool" where
  "is_space c = (c \<in> set [CHR 0x09, CHR 0x0A, CHR 0x0B, CHR 0x0C, CHR 0x0D, CHR 0x20, CHR 0xA0])"

definition trim :: "string \<Rightarrow> string" where
  "trim s = rev (dropWhile is_space (rev (dropWhile is_space s)))"

definition lower_char :: "char \<Rightarrow> char" where
  "lower_char c =
    (let n = (of_char c :: nat) in
     if (65 \<le> n \<and> n \<le> 90) \<or> (192 \<le> n \<and> n \<le> 222 \<and> n \<noteq> 215) then char_of (n + 32) else c)"

definition toLowerCase :: "string \<Rightarrow> string" where
  "toLowerCase s = map lower_char s"

fun starts_with :: "string \<Rightarrow> string \<Rightarrow> bool" where
  "starts_with s [] = True"
| "starts_with [] (c # q) = False"
| "starts_with (d # s) (c # q) = (d = c \<and> starts_with s q)"

fun str_includes :: "string \<Rightarrow> string \<Rightarrow> bool" where
  "str_includes [] q = (q = [])"
| "str_includes (d # s) q = (starts_with (d # s) q \<or> str_includes s q)"

text \<open>
  The filter state of the page: an inclusion flag for each bucket and the three text
  fields.
\<close>

record FilterState =
  labelFilter :: "LabelBucket \<Rightarrow> bool"
  priceMin :: string
  priceMax :: string
  merchantSearch :: string

text \<open>
  \<open>filteredResults\<close>. The built-in \<open>parseFloat\<close> is a parameter: the filter only
  compares its result, which may be any number, \<open>NaN\<close> included.
\<close>

definition filteredResults :: "(string \<Rightarrow> number) \<Rightarrow> FilterState \<Rightarrow> Hit list \<Rightarrow> Hit list" where
  "filteredResults parseFloat st sortedRes =
    (let pmin = (if priceMin st \<noteq> [] then Some (parseFloat (priceMin st)) else None);
         pmax = (if priceMax st \<noteq> [] then Some (parseFloat (priceMax st)) else None);
         merchantQ = toLowerCase (trim (merchantSearch st))
     in filter (\<lambda>r.
          let bucket = (labelFilter st (normalizeBucket (label r)) = True);
              okMin = (case pmin of None \<Rightarrow> True | Some m \<Rightarrow> num_ge (price_or r PosInf) m);
              okMax = (case pmax of None \<Rightarrow> True | Some m \<Rightarrow> num_le (price_or r NegInf) m);
              okMerchant = (if merchantQ = [] then True
                            else str_includes (toLowerCase (nullish (merchant r) [])) merchantQ)
          in bucket \<and> okMin \<and> okMax \<and> okMerchant) sortedRes)"

text \<open>The filter state the page starts with, and which a new upload sets again.\<close>

definition initial_FilterState :: FilterState where
  "initial_FilterState =
    \<lparr>labelFilter = (\<lambda>b. True), priceMin = [], priceMax = [], merchantSearch = []\<rparr>"

subsection \<open>Paginate\<close>

text \<open>
  \<open>visibleCount\<close> is set in two ways only: to 12 (initially, on a new upload and when a
  search starts or is repeated) and by the button \<open>Mehr laden\<close>, which adds 12.
\<close>

definition initial_visibleCount :: nat where
  "initial_visibleCount = 12"

datatype count_event = Reset | LoadMore

fun setVisibleCount :: "count_event \<Rightarrow> nat \<Rightarrow> nat" where
  "setVisibleCount Reset n = 12"
| "setVisibleCount LoadMore n = n + 12"

definition visibleCount_after :: "count_event list \<Rightarrow> nat" where
  "visibleCount_after evs = foldl (\<lambda>n e. setVisibleCount e n) initial_visibleCount evs"

text \<open>\<open>slice(0, n)\<close> with a count \<open>n\<close> that is never negative.\<close>

definition visibleResults :: "'a list \<Rightarrow> nat \<Rightarrow> 'a list" where
  "visibleResults filtered visibleCount = take visibleCount filtered"

definition canLoadMore :: "'a list \<Rightarrow> nat \<Rightarrow> bool" where
  "canLoadMore filtered visibleCount = (visibleCount < length filtered)"

subsection \<open>Definitions for the proofs and the examples\<close>

text \<open>A hit that has only an identifier, a link and an image.\<close>

definition bare_hit :: "int \<Rightarrow> string option \<Rightarrow> string option \<Rightarrow> Hit" where
  "bare_hit i link img =
    \<lparr>product_id = i, score = None, label = None, title = None, price = None, currency = None,
     merchant = None, deeplink = link, image_url = img\<rparr>"

text \<open>
  In a list with the priced hits first, a hit without a price is followed by hits
  without a price only.
\<close>

fun priced_first :: "Hit list \<Rightarrow> bool" where
  "priced_first [] = True"
| "priced_first (h # hs) = ((price h = None \<longrightarrow> (\<forall>g\<in>set hs. price g = None)) \<and> priced_first hs)"

text \<open>The comparators of \<open>priceAsc\<close> and \<open>priceDesc\<close>.\<close>

definition price_cmp :: "SortKey \<Rightarrow> Hit \<Rightarrow> Hit \<Rightarrow> number" where
  "price_cmp k a b =
    (if k = priceAsc then num_sub (price_or a PosInf) (price_or b PosInf)
     else num_sub (price_or b NegInf) (price_or a NegInf))"

text \<open>A hit that has only an identifier and, possibly, a price.\<close>

definition priced_hit :: "int \<Rightarrow> real option \<Rightarrow> Hit" where
  "priced_hit i p =
    \<lparr>product_id = i, score = None, label = None, title = None, price = p, currency = None,
     merchant = None, deeplink = None, image_url = None\<rparr>"

section \<open>Verification: rounding to a double\<close>

lemma pow2_powr: "pow2 k = 2 powr (real_of_int k)"
proof (cases "0 \<le> k")
  case True
  then have "2 powr real_of_int k = 2 powr real (nat k)" by simp
  also have "\<dots> = 2 ^ nat k" by (simp add: powr_realpow)
  finally show ?thesis using True by (simp add: pow2_def)
next
  case False
  then have "2 powr real_of_int k = 2 powr (- real (nat (- k)))" by simp
  also have "\<dots> = 1 / 2 powr real (nat (- k))" by (simp add: powr_minus divide_inverse)
  also have "\<dots> = 1 / 2 ^ nat (- k)" by (simp add: powr_realpow)
  finally show ?thesis using False by (simp add: pow2_def)
qed

lemma pow2_pos: "0 < pow2 k"
  by (simp add: pow2_powr)

lemma pow2_add: "pow2 (j + k) = pow2 j * pow2 k"
  by (simp add: pow2_powr powr_add)

lemma pow2_nat: "pow2 (int n) = 2 ^ n"
  by (simp add: pow2_def)

lemma pow2_neg_nat: "pow2 (- int n) = 1 / 2 ^ n"
proof (cases "n = 0")
  case True
  then show ?thesis by (simp add: pow2_def)
next
  case False
  then have "\<not> 0 \<le> - int n" by simp
  then show ?thesis by (simp add: pow2_def)
qed

lemma pow2_mono: "j \<le> k \<Longrightarrow> pow2 j \<le> pow2 k"
  by (simp add: pow2_powr)

lemma bit_length_bounds:
  "0 < n \<Longrightarrow> 2 ^ (bit_length n - 1) \<le> n \<and> n < 2 ^ bit_length n"
proof (induction n rule: bit_length.induct)
  case (1 n)
  show ?case
  proof (cases "n div 2 = 0")
    case True
    then have "n = 1" using "1.prems" by linarith
    then show ?thesis by (simp add: bit_length.simps)
  next
    case False
    then have ih: "2 ^ (bit_length (n div 2) - 1) \<le> n div 2 \<and> n div 2 < 2 ^ bit_length (n div 2)"
      using "1.IH" "1.prems" by simp
    have pos: "0 < bit_length (n div 2)"
      using False by (subst bit_length.simps) simp
    have bl: "bit_length n = Suc (bit_length (n div 2))"
      using "1.prems" by (subst bit_length.simps) simp
    have "(2::nat) ^ (bit_length n - 1) = 2 * 2 ^ (bit_length (n div 2) - 1)"
      using pos bl by (cases "bit_length (n div 2)") simp_all
    then have lo: "2 ^ (bit_length n - 1) \<le> n"
      using ih by linarith
    have "n < 2 * 2 ^ bit_length (n div 2)"
      using ih by linarith
    then show ?thesis using lo bl by simp
  qed
qed

lemma exponent_bounds:
  assumes "0 < v"
  shows "pow2 (exponent v) \<le> v \<and> v < pow2 (exponent v + 1)"
proof (cases "1 \<le> v")
  case True
  define n where "n = nat \<lfloor>v\<rfloor>"
  have fl: "1 \<le> \<lfloor>v\<rfloor>" using True by simp
  have n: "0 < n" "real n \<le> v" "v < real n + 1"
  proof -
    show "0 < n" using fl by (simp add: n_def)
    have "0 \<le> \<lfloor>v\<rfloor>" using fl by linarith
    then have "real n = of_int \<lfloor>v\<rfloor>" by (simp only: n_def of_nat_nat)
    then show "real n \<le> v" "v < real n + 1" by linarith+
  qed
  have e: "exponent v = int (bit_length n) - 1"
    using True by (simp add: exponent_def n_def)
  have bl: "0 < bit_length n" using n(1) by (subst bit_length.simps) simp
  then have e': "exponent v = int (bit_length n - 1)" using e by simp
  have b: "2 ^ (bit_length n - 1) \<le> n" "n < 2 ^ bit_length n"
    using bit_length_bounds [OF n(1)] by simp_all
  have "pow2 (exponent v) = 2 ^ (bit_length n - 1)"
    unfolding e' by (rule pow2_nat)
  also have "\<dots> \<le> real n" using b(1) by (metis of_nat_le_iff of_nat_numeral of_nat_power)
  finally have lo: "pow2 (exponent v) \<le> v" using n(2) by simp
  have "exponent v + 1 = int (bit_length n)" using e by simp
  then have "pow2 (exponent v + 1) = 2 ^ bit_length n" by (simp add: pow2_nat)
  moreover have "real n + 1 \<le> 2 ^ bit_length n"
  proof -
    have "n + 1 \<le> 2 ^ bit_length n" using b(2) by simp
    then have "real (n + 1) \<le> real (2 ^ bit_length n)" by (rule of_nat_mono)
    then show ?thesis by simp
  qed
  ultimately show ?thesis using lo n(3) by simp
next
  case False
  then have v1: "v < 1" by simp
  define n where "n = nat \<lfloor>1 / v\<rfloor>"
  define k where "k = bit_length n"
  have inv: "1 < 1 / v" using assms v1 by simp
  have fl: "1 \<le> \<lfloor>1 / v\<rfloor>" using inv by simp
  have n: "0 < n" "real n \<le> 1 / v" "1 / v < real n + 1"
  proof -
    show "0 < n" using fl by (simp add: n_def)
    have "0 \<le> \<lfloor>1 / v\<rfloor>" using fl by linarith
    then have "real n = of_int \<lfloor>1 / v\<rfloor>" by (simp only: n_def of_nat_nat)
    then show "real n \<le> 1 / v" "1 / v < real n + 1" by linarith+
  qed
  have b: "2 ^ (k - 1) \<le> n" "n < 2 ^ k"
    using bit_length_bounds [OF n(1)] by (simp_all add: k_def)
  have kpos: "0 < k" using n(1) unfolding k_def by (subst bit_length.simps) simp
  have up: "1 / v < 2 ^ k"
  proof -
    have "n + 1 \<le> 2 ^ k" using b(2) by simp
    then have "real (n + 1) \<le> real (2 ^ k)" by (rule of_nat_mono)
    then show ?thesis using n(3) by simp
  qed
  have lo: "(2::real) ^ (k - 1) \<le> 1 / v"
  proof -
    have "real (2 ^ (k - 1)) \<le> real n" using b(1) by (rule of_nat_mono)
    then have "(2::real) ^ (k - 1) \<le> real n" by simp
    then show ?thesis using n(2) by (rule order_trans)
  qed
  have vk: "1 / 2 ^ k < v"
    using up assms by (simp add: field_simps)
  have vk1: "v \<le> 1 / 2 ^ (k - 1)"
    using lo assms by (simp add: field_simps)
  have km: "int k - 1 = int (k - 1)" using kpos by simp
  show ?thesis
  proof (cases "v * pow2 (int k - 1) = 1")
    case True
    then have e: "exponent v = - int (k - 1)"
      using False kpos by (simp add: exponent_def n_def [symmetric] k_def [symmetric] Let_def)
    have veq: "v = 1 / 2 ^ (k - 1)"
      using True unfolding km pow2_nat by (simp add: field_simps)
    have "pow2 (exponent v) = 1 / 2 ^ (k - 1)" unfolding e by (rule pow2_neg_nat)
    then have "pow2 (exponent v) = v" using veq by simp
    moreover have "pow2 (exponent v + 1) = 2 * v"
    proof -
      have "pow2 (exponent v + 1) = pow2 (exponent v) * pow2 1" by (rule pow2_add)
      then show ?thesis using \<open>pow2 (exponent v) = v\<close> by (simp add: pow2_def)
    qed
    ultimately show ?thesis using assms by simp
  next
    case neq: False
    then have e: "exponent v = - int k"
      using False by (simp add: exponent_def n_def [symmetric] k_def [symmetric] Let_def)
    have "v \<noteq> 1 / 2 ^ (k - 1)"
      using neq unfolding km pow2_nat by auto
    then have lt: "v < 1 / 2 ^ (k - 1)" using vk1 by simp
    have p1: "pow2 (exponent v) = 1 / 2 ^ k" unfolding e by (rule pow2_neg_nat)
    have "exponent v + 1 = - int (k - 1)" using e kpos by simp
    then have p2: "pow2 (exponent v + 1) = 1 / 2 ^ (k - 1)" by (simp add: pow2_neg_nat)
    show ?thesis using vk lt p1 p2 by simp
  qed
qed

lemma round_half_even_error: "\<bar>of_int (round_half_even m) - m\<bar> \<le> 1 / 2"
  unfolding round_half_even_def Let_def by (auto; linarith)

lemma to_double_error: "\<bar>to_double v - v\<bar> \<le> \<bar>v\<bar> / 2 ^ 53 + 1 / 2 ^ 1075"
proof (cases "v = 0")
  case True
  then show ?thesis by (simp add: to_double_def)
next
  case False
  define e where "e = max (exponent \<bar>v\<bar>) (- 1022)"
  define ulp where "ulp = pow2 (e - 52)"
  have ulp: "0 < ulp" by (simp add: ulp_def pow2_pos)
  have td: "to_double v = of_int (round_half_even (v / ulp)) * ulp"
    using False by (simp add: to_double_def e_def ulp_def Let_def)
  have "to_double v - v = (of_int (round_half_even (v / ulp)) - v / ulp) * ulp"
    using ulp by (simp add: td field_simps)
  then have "\<bar>to_double v - v\<bar> = \<bar>of_int (round_half_even (v / ulp)) - v / ulp\<bar> * ulp"
    using ulp by (simp add: abs_mult)
  also have "\<dots> \<le> 1 / 2 * ulp"
    using round_half_even_error ulp by (intro mult_right_mono) simp_all
  finally have err: "\<bar>to_double v - v\<bar> \<le> ulp / 2" by simp
  have half: "ulp / 2 = pow2 e / 2 ^ 53"
  proof -
    have "pow2 e = pow2 ((e - 52) + 52)" by simp
    also have "\<dots> = ulp * pow2 52" unfolding ulp_def by (rule pow2_add)
    finally show ?thesis by (simp add: pow2_def)
  qed
  show ?thesis
  proof (cases "- 1022 \<le> exponent \<bar>v\<bar>")
    case True
    then have "e = exponent \<bar>v\<bar>" by (simp add: e_def)
    then have "pow2 e \<le> \<bar>v\<bar>" using exponent_bounds [of "\<bar>v\<bar>"] False by simp
    then have "ulp / 2 \<le> \<bar>v\<bar> / 2 ^ 53" unfolding half by (simp add: divide_right_mono)
    then have "\<bar>to_double v - v\<bar> \<le> \<bar>v\<bar> / 2 ^ 53" using err by (rule order_trans [rotated])
    moreover have "(0::real) \<le> 1 / 2 ^ 1075" by simp
    ultimately show ?thesis by (rule add_increasing2 [rotated])
  next
    case False
    then have "e = - 1022" by (simp add: e_def)
    then have "ulp / 2 = 1 / 2 ^ 1075" unfolding half by (simp add: pow2_def)
    then have "\<bar>to_double v - v\<bar> \<le> 1 / 2 ^ 1075" using err by simp
    moreover have "0 \<le> \<bar>v\<bar> / 2 ^ 53" by simp
    ultimately show ?thesis by (rule add_increasing [rotated])
  qed
qed

section \<open>Verification: coordinate mapping\<close>

lemma or_else_rendered:
  "or_else (or_else (Fin (real w)) (Fin rw)) (Fin (real n)) = Fin (rendered w rw n)"
  by (simp add: or_else_def rendered_def)

lemma rendered_nonzero: "0 < n \<Longrightarrow> rendered w rw n \<noteq> 0"
  by (simp add: rendered_def)

lemma nullish_map_Fin: "nullish (map_option Fin a) (Fin 0) = Fin (nullish a 0)"
  by (cases a) simp_all

lemma pixel_coord_Fin:
  assumes "r \<noteq> 0"
  shows "Math_max (Fin lo) (Math_round
           (if p then num_mul (num_div (nullish (map_option Fin a) (Fin 0)) (Fin 100)) (Fin n)
            else num_mul (nullish (map_option Fin a) (Fin 0)) (num_div (Fin n) (Fin r))))
         = Fin (max lo (of_int \<lfloor>pixel_value p (nullish a 0) n r + 1 / 2\<rfloor>))"
proof (cases p)
  case True
  then show ?thesis by (simp add: nullish_map_Fin pixel_value_def max_def)
next
  case False
  then show ?thesis using assms by (simp add: nullish_map_Fin pixel_value_def max_def)
qed

lemma toPixelCrop_Fin:
  assumes "0 < naturalWidth img" "0 < naturalHeight img"
  shows "toPixelCrop (selection u a b w h) img =
          \<lparr>px_x = Fin (max 0 (of_int \<lfloor>pixel_value (u = Pct) (nullish a 0) (real (naturalWidth img))
                     (rendered (img_width img) (rect_width img) (naturalWidth img)) + 1 / 2\<rfloor>)),
           px_y = Fin (max 0 (of_int \<lfloor>pixel_value (u = Pct) (nullish b 0) (real (naturalHeight img))
                     (rendered (img_height img) (rect_height img) (naturalHeight img)) + 1 / 2\<rfloor>)),
           px_width = Fin (max 1 (of_int \<lfloor>pixel_value (u = Pct) (nullish w 0) (real (naturalWidth img))
                     (rendered (img_width img) (rect_width img) (naturalWidth img)) + 1 / 2\<rfloor>)),
           px_height = Fin (max 1 (of_int \<lfloor>pixel_value (u = Pct) (nullish h 0) (real (naturalHeight img))
                     (rendered (img_height img) (rect_height img) (naturalHeight img)) + 1 / 2\<rfloor>))\<rparr>"
proof -
  note rw = rendered_nonzero [OF assms(1), of "img_width img" "rect_width img"]
  note rh = rendered_nonzero [OF assms(2), of "img_height img" "rect_height img"]
  show ?thesis
    unfolding toPixelCrop_def Let_def or_else_rendered selection_def
    by (simp only: Crop.simps pixel_coord_Fin [OF rw] pixel_coord_Fin [OF rh])
qed

text \<open>
  Claim C1. For a selection of either unit, with each coordinate absent or a real number,
  and an image whose natural width and height are positive, \<open>toPixelCrop\<close> returns a
  rectangle of finite numbers with \<open>x \<ge> 0\<close>, \<open>y \<ge> 0\<close>, \<open>width \<ge> 1\<close> and \<open>height \<ge> 1\<close>.
  The rendered size needs no hypothesis of its own: when the element's width and its
  rectangle's width are both zero the natural width stands in, so that the divisor is
  never zero. The coordinates range over the real numbers: \<open>NaN\<close> is no coordinate, and
  \<open>Math.max\<close> would hand it through.
\<close>

theorem toPixelCrop_nonempty:
  assumes "0 < naturalWidth img" "0 < naturalHeight img"
  shows "\<exists>px py pw ph. toPixelCrop (selection u a b w h) img =
          \<lparr>px_x = Fin px, px_y = Fin py, px_width = Fin pw, px_height = Fin ph\<rparr>
          \<and> 0 \<le> px \<and> 0 \<le> py \<and> 1 \<le> pw \<and> 1 \<le> ph"
  unfolding toPixelCrop_Fin [OF assms] by (intro exI conjI, rule refl) simp_all

theorem toPixelCrop_nonempty_witness:
  "\<exists>px py pw ph. toPixelCrop (selection Px (Some 12) None (Some 76) (Some (- 3))) example_image =
          \<lparr>px_x = Fin px, px_y = Fin py, px_width = Fin pw, px_height = Fin ph\<rparr>
          \<and> 0 \<le> px \<and> 0 \<le> py \<and> 1 \<le> pw \<and> 1 \<le> ph"
  using toPixelCrop_nonempty [of example_image Px "Some 12" None "Some 76" "Some (- 3)"]
  by (simp add: example_image_def)

lemma round_error: "\<bar>of_int \<lfloor>t + 1 / 2\<rfloor> - t\<bar> \<le> (1 / 2 :: real)"
  by linarith

lemma to_double_near:
  assumes "\<bar>v\<bar> \<le> B"
  shows "\<bar>to_double v - v\<bar> \<le> B / 2 ^ 53 + 1 / 2 ^ 1075"
proof -
  have "\<bar>v\<bar> / 2 ^ 53 \<le> B / 2 ^ 53" using assms by (simp add: divide_right_mono)
  then show ?thesis using to_double_error [of v] by linarith
qed

lemma unit_roundoff: "(1::real) / 2 ^ 53 \<le> 12 / 10 ^ 17"
  by simp

lemma underflow_unit: "(1::real) / 2 ^ 1075 \<le> 1 / 10 ^ 300"
  by simp

text \<open>One rounded operation on a value of size at most 1, 2, 300.\<close>

lemma to_double_near_1: "\<bar>v\<bar> \<le> 1 \<Longrightarrow> \<bar>to_double v - v\<bar> \<le> 13 / 10 ^ 17"
  using to_double_near [of v 1] unit_roundoff underflow_unit by simp

lemma to_double_near_2: "\<bar>v\<bar> \<le> 2 \<Longrightarrow> \<bar>to_double v - v\<bar> \<le> 25 / 10 ^ 17"
  using to_double_near [of v 2] unit_roundoff underflow_unit by simp

lemma to_double_near_300: "\<bar>v\<bar> \<le> 300 \<Longrightarrow> \<bar>to_double v - v\<bar> \<le> 37 / 10 ^ 15"
  using to_double_near [of v 300] unit_roundoff underflow_unit by simp

lemma to_double_near_scaled:
  assumes "\<bar>v\<bar> \<le> 2 * N" "1 \<le> N"
  shows "\<bar>to_double v - v\<bar> \<le> N * (25 / 10 ^ 17)"
proof -
  have "\<bar>to_double v - v\<bar> \<le> 2 * N / 2 ^ 53 + 1 / 2 ^ 1075"
    by (rule to_double_near [OF assms(1)])
  also have "\<dots> = N * (2 * (1 / 2 ^ 53)) + 1 / 2 ^ 1075" by simp
  also have "\<dots> \<le> N * (24 / 10 ^ 17) + N * (1 / 10 ^ 300)"
  proof (rule add_mono)
    show "N * (2 * (1 / 2 ^ 53)) \<le> N * (24 / 10 ^ 17)"
      using assms(2) unit_roundoff by (intro mult_left_mono) simp_all
    have "(1::real) / 2 ^ 1075 \<le> 1 * (1 / 10 ^ 300)" using underflow_unit by simp
    also have "\<dots> \<le> N * (1 / 10 ^ 300)" using assms(2) by (intro mult_right_mono) simp_all
    finally show "1 / 2 ^ 1075 \<le> N * (1 / 10 ^ 300)" .
  qed
  also have "\<dots> \<le> N * (25 / 10 ^ 17)"
  proof -
    have "N * (24 / 10 ^ 17) + N * (1 / 10 ^ 300) = N * (24 / 10 ^ 17 + 1 / 10 ^ 300)"
      by (simp add: distrib_left)
    also have "\<dots> \<le> N * (25 / 10 ^ 17)"
      using assms(2) by (intro mult_left_mono) simp_all
    finally show ?thesis .
  qed
  finally show ?thesis .
qed

text \<open>Percent to pixels: the value that is rounded is close to the exact product.\<close>

lemma pixel_of_percent_near:
  fixes a :: real
  assumes "0 \<le> a" "a \<le> 100" "0 < n"
  shows "\<bar>to_double (to_double (a / 100) * real n) - a / 100 * real n\<bar> \<le> real n * (4 / 10 ^ 16)"
proof -
  define q where "q = a / 100"
  define t1 where "t1 = to_double q"
  have q: "0 \<le> q" "q \<le> 1" using assms by (simp_all add: q_def)
  have n1: "1 \<le> real n" using assms(3) by simp
  have e1: "\<bar>t1 - q\<bar> \<le> 13 / 10 ^ 17"
    unfolding t1_def using q by (intro to_double_near_1) simp
  moreover have "(13::real) / 10 ^ 17 \<le> 1" by simp
  ultimately have t1: "\<bar>t1\<bar> \<le> 2" using q by linarith
  have "\<bar>t1 * real n\<bar> = \<bar>t1\<bar> * real n" by (simp add: abs_mult)
  also have "\<dots> \<le> 2 * real n" using t1 by (intro mult_right_mono) simp_all
  finally have e2: "\<bar>to_double (t1 * real n) - t1 * real n\<bar> \<le> real n * (25 / 10 ^ 17)"
    using n1 by (intro to_double_near_scaled) simp_all
  have "t1 * real n - q * real n = (t1 - q) * real n" by (simp add: algebra_simps)
  then have "\<bar>t1 * real n - q * real n\<bar> = \<bar>t1 - q\<bar> * real n" by (simp add: abs_mult)
  also have "\<dots> \<le> 13 / 10 ^ 17 * real n" using e1 by (intro mult_right_mono) simp_all
  finally have e3: "\<bar>t1 * real n - q * real n\<bar> \<le> real n * (13 / 10 ^ 17)" by (simp add: mult.commute)
  have "\<bar>to_double (t1 * real n) - q * real n\<bar> \<le> real n * (25 / 10 ^ 17) + real n * (13 / 10 ^ 17)"
    using e2 e3 by linarith
  also have "\<dots> = real n * (38 / 10 ^ 17)" by (simp add: distrib_left [symmetric])
  also have "\<dots> \<le> real n * (4 / 10 ^ 16)" by (intro mult_left_mono) simp_all
  finally show ?thesis by (simp add: t1_def q_def)
qed

text \<open>Pixels to percent: the two rounded operations move the result by very little.\<close>

lemma percent_of_pixel_near:
  fixes P :: real
  assumes "0 \<le> P" "P \<le> 2 * real n" "0 < n"
  shows "\<bar>to_double (to_double (P / real n) * 100) - P / real n * 100\<bar> \<le> 7 / 10 ^ 14"
proof -
  define s where "s = P / real n"
  define t3 where "t3 = to_double s"
  have s: "0 \<le> s" "s \<le> 2" using assms by (simp_all add: s_def field_simps)
  have e3: "\<bar>t3 - s\<bar> \<le> 25 / 10 ^ 17"
    unfolding t3_def using s by (intro to_double_near_2) simp
  moreover have "(25::real) / 10 ^ 17 \<le> 1" by simp
  ultimately have "\<bar>t3\<bar> \<le> 3" using s by linarith
  then have "\<bar>t3 * 100\<bar> \<le> 300" by simp
  then have e4: "\<bar>to_double (t3 * 100) - t3 * 100\<bar> \<le> 37 / 10 ^ 15"
    by (rule to_double_near_300)
  have "t3 * 100 - s * 100 = (t3 - s) * 100" by simp
  then have "\<bar>t3 * 100 - s * 100\<bar> = \<bar>t3 - s\<bar> * 100" by (simp only: abs_mult abs_numeral)
  also have "\<dots> \<le> 25 / 10 ^ 17 * 100" using e3 by (intro mult_right_mono) simp_all
  finally have e5: "\<bar>t3 * 100 - s * 100\<bar> \<le> 25 / 10 ^ 15" by simp
  have "(37::real) / 10 ^ 15 + 25 / 10 ^ 15 \<le> 7 / 10 ^ 14" by simp
  then have "\<bar>to_double (t3 * 100) - s * 100\<bar> \<le> 7 / 10 ^ 14"
    using e4 e5 by linarith
  then show ?thesis by (simp add: t3_def s_def)
qed

text \<open>From a bound in pixels to a bound in percent.\<close>

lemma percent_bound:
  fixes a P :: real
  assumes n: "0 < n" and d: "\<bar>P - a / 100 * real n\<bar> \<le> 1 / 2 + real n * (4 / 10 ^ 16)"
  shows "\<bar>P / real n * 100 - a\<bar> \<le> 50 / real n + 4 / 10 ^ 14"
proof -
  have "P / real n * 100 - a = (P - a / 100 * real n) * (100 / real n)"
    using n by (simp add: field_simps)
  then have "\<bar>P / real n * 100 - a\<bar> = \<bar>P - a / 100 * real n\<bar> * (100 / real n)"
    by (simp only: abs_mult) simp
  also have "\<dots> \<le> (1 / 2 + real n * (4 / 10 ^ 16)) * (100 / real n)"
    using d n by (intro mult_right_mono) simp_all
  also have "\<dots> = 50 / real n + 4 / 10 ^ 14"
    using n by (simp add: field_simps)
  finally show ?thesis .
qed

text \<open>A coordinate of the origin, clamped at 0, and back.\<close>

lemma origin_recovered:
  fixes a :: real
  assumes "0 \<le> a" "a \<le> 100" "0 < n"
    and P_def: "P = max 0 (of_int \<lfloor>to_double (to_double (a / 100) * real n) + 1 / 2\<rfloor>)"
  shows "\<bar>to_double (to_double (P / real n) * 100) - a\<bar> \<le> 50 / real n + 1 / 10 ^ 12"
proof -
  define t2 where "t2 = to_double (to_double (a / 100) * real n)"
  define T where "T = a / 100 * real n"
  define c where "c = real n * (4 / 10 ^ 16)"
  have n1: "1 \<le> real n" using assms(3) by simp
  have k: "(7::real) / 10 ^ 14 + 4 / 10 ^ 14 \<le> 1 / 10 ^ 12" by simp
  have c: "0 \<le> c" "c \<le> real n / 2" by (simp_all add: c_def)
  have T: "0 \<le> T" "T \<le> real n"
  proof -
    show "0 \<le> T" using assms by (simp add: T_def)
    have "a / 100 * real n \<le> 1 * real n" using assms by (intro mult_right_mono) simp_all
    then show "T \<le> real n" by (simp add: T_def)
  qed
  have near: "\<bar>t2 - T\<bar> \<le> c"
    unfolding t2_def T_def c_def by (rule pixel_of_percent_near [OF assms(1-3)])
  have r: "\<bar>of_int \<lfloor>t2 + 1 / 2\<rfloor> - t2\<bar> \<le> 1 / 2" by (rule round_error)
  have P: "P = max 0 (of_int \<lfloor>t2 + 1 / 2\<rfloor>)" by (simp add: P_def t2_def)
  have d: "\<bar>P - T\<bar> \<le> 1 / 2 + c" using near r T(1) unfolding P by linarith
  have P0: "0 \<le> P" unfolding P by simp
  have P2: "P \<le> 2 * real n" using d T(2) c(2) n1 by linarith
  have bk: "\<bar>to_double (to_double (P / real n) * 100) - P / real n * 100\<bar> \<le> 7 / 10 ^ 14"
    by (rule percent_of_pixel_near [OF P0 P2 assms(3)])
  have "\<bar>P / real n * 100 - a\<bar> \<le> 50 / real n + 4 / 10 ^ 14"
    using d unfolding T_def c_def by (rule percent_bound [OF assms(3)])
  then show ?thesis using bk k by linarith
qed

text \<open>A width or height, clamped at 1, and back.\<close>

lemma extent_recovered:
  fixes w :: real
  assumes "0 \<le> w" "w \<le> 100" "0 < n" "n < 2 ^ 32"
    and P_def: "P = max 1 (of_int \<lfloor>to_double (to_double (w / 100) * real n) + 1 / 2\<rfloor>)"
  shows "if 1 / 2 \<le> w / 100 * real n
         then \<bar>to_double (to_double (P / real n) * 100) - w\<bar> \<le> 50 / real n + 1 / 10 ^ 12
         else \<bar>to_double (to_double (P / real n) * 100) - 100 / real n\<bar> \<le> 1 / 10 ^ 12"
proof -
  define t2 where "t2 = to_double (to_double (w / 100) * real n)"
  define T where "T = w / 100 * real n"
  define c where "c = real n * (4 / 10 ^ 16)"
  have n1: "1 \<le> real n" using assms(3) by simp
  have k: "(7::real) / 10 ^ 14 + 4 / 10 ^ 14 \<le> 1 / 10 ^ 12" by simp
  have "real n < real (2 ^ 32)" using assms(4) by (rule of_nat_less_iff [THEN iffD2])
  then have nb: "real n < 2 ^ 32" by simp
  have c: "0 \<le> c" "c \<le> real n / 2" "c \<le> 1 / 4"
  proof -
    show "0 \<le> c" "c \<le> real n / 2" by (simp_all add: c_def)
    have "c \<le> 2 ^ 32 * (4 / 10 ^ 16)" unfolding c_def using nb by (intro mult_right_mono) simp_all
    then show "c \<le> 1 / 4" by simp
  qed
  have T: "0 \<le> T" "T \<le> real n"
  proof -
    show "0 \<le> T" using assms by (simp add: T_def)
    have "w / 100 * real n \<le> 1 * real n" using assms by (intro mult_right_mono) simp_all
    then show "T \<le> real n" by (simp add: T_def)
  qed
  have near: "\<bar>t2 - T\<bar> \<le> c"
    unfolding t2_def T_def c_def by (rule pixel_of_percent_near [OF assms(1-3)])
  have r: "\<bar>of_int \<lfloor>t2 + 1 / 2\<rfloor> - t2\<bar> \<le> 1 / 2" by (rule round_error)
  have P: "P = max 1 (of_int \<lfloor>t2 + 1 / 2\<rfloor>)" by (simp add: P_def t2_def)
  have P0: "0 \<le> P" unfolding P by simp
  show ?thesis
  proof (cases "1 / 2 \<le> T")
    case True
    have d: "\<bar>P - T\<bar> \<le> 1 / 2 + c" using near r True c(1) unfolding P by linarith
    have P2: "P \<le> 2 * real n" using d T(2) c(2) n1 by linarith
    have bk: "\<bar>to_double (to_double (P / real n) * 100) - P / real n * 100\<bar> \<le> 7 / 10 ^ 14"
      by (rule percent_of_pixel_near [OF P0 P2 assms(3)])
    have "\<bar>P / real n * 100 - w\<bar> \<le> 50 / real n + 4 / 10 ^ 14"
      using d unfolding T_def c_def by (rule percent_bound [OF assms(3)])
    then have "\<bar>to_double (to_double (P / real n) * 100) - w\<bar> \<le> 50 / real n + 1 / 10 ^ 12"
      using bk k by linarith
    then show ?thesis using True by (simp add: T_def)
  next
    case False
    then have "t2 + 1 / 2 < 2" using near c(3) by linarith
    then have "\<lfloor>t2 + 1 / 2\<rfloor> \<le> 1" by linarith
    then have P1: "P = 1" unfolding P by simp
    have "\<bar>to_double (to_double (P / real n) * 100) - P / real n * 100\<bar> \<le> 7 / 10 ^ 14"
      using n1 by (intro percent_of_pixel_near [OF _ _ assms(3)]) (simp_all add: P1)
    moreover have "(7::real) / 10 ^ 14 \<le> 1 / 10 ^ 12" by simp
    ultimately have "\<bar>to_double (to_double (P / real n) * 100) - 100 / real n\<bar> \<le> 1 / 10 ^ 12"
      unfolding P1 by simp
    then show ?thesis using False by (simp add: T_def)
  qed
qed


lemma percent_of_pixel:
  assumes "0 < n"
  shows "num_mul (num_div (Fin p) (Fin (real n))) (Fin 100) = Fin (to_double (to_double (p / real n) * 100))"
  using assms by simp

lemma round_trip_Fin:
  assumes "0 < naturalWidth img" "0 < naturalHeight img"
  shows "round_trip (selection Pct (Some a) (Some b) (Some w) (Some h)) img =
      selection Pct
        (Some (to_double (to_double (max 0 (of_int \<lfloor>to_double (to_double (a / 100) * real (naturalWidth img)) + 1 / 2\<rfloor>)
           / real (naturalWidth img)) * 100)))
        (Some (to_double (to_double (max 0 (of_int \<lfloor>to_double (to_double (b / 100) * real (naturalHeight img)) + 1 / 2\<rfloor>)
           / real (naturalHeight img)) * 100)))
        (Some (to_double (to_double (max 1 (of_int \<lfloor>to_double (to_double (w / 100) * real (naturalWidth img)) + 1 / 2\<rfloor>)
           / real (naturalWidth img)) * 100)))
        (Some (to_double (to_double (max 1 (of_int \<lfloor>to_double (to_double (h / 100) * real (naturalHeight img)) + 1 / 2\<rfloor>)
           / real (naturalHeight img)) * 100)))"
  unfolding round_trip_def toPixelCrop_Fin [OF assms] pixelToPercentCropWithSize_def
  using assms by (simp add: pixel_value_def selection_def)

text \<open>
  Claim C2, as amended. Take a percentage selection with every coordinate between 0 and
  100 and an image whose natural width and height are positive and below \<open>2^32\<close> (they
  are unsigned 32-bit integers in the DOM). The round trip, computed in doubles, gives
  \<open>x\<close> and \<open>y\<close> back within half a natural pixel (\<open>50 / naturalWidth\<close> and
  \<open>50 / naturalHeight\<close> percentage points) plus \<open>10^-12\<close>, the allowance for the rounding
  of the four products and quotients. A width or height that covers at least half a
  pixel comes back within the same distance; a smaller one comes back as one natural
  pixel (\<open>100 / naturalWidth\<close> percent, to within \<open>10^-12\<close>), because \<open>toPixelCrop\<close> clamps
  the rounded extent to at least 1.
\<close>

theorem round_trip_percent:
  assumes nat: "0 < naturalWidth img" "naturalWidth img < 2 ^ 32"
      "0 < naturalHeight img" "naturalHeight img < 2 ^ 32"
    and rng: "0 \<le> a" "a \<le> 100" "0 \<le> b" "b \<le> 100" "0 \<le> w" "w \<le> 100" "0 \<le> h" "h \<le> 100"
  shows "\<exists>a' b' w' h'.
           round_trip (selection Pct (Some a) (Some b) (Some w) (Some h)) img
             = selection Pct (Some a') (Some b') (Some w') (Some h')
           \<and> \<bar>a' - a\<bar> \<le> 50 / real (naturalWidth img) + 1 / 10 ^ 12
           \<and> \<bar>b' - b\<bar> \<le> 50 / real (naturalHeight img) + 1 / 10 ^ 12
           \<and> (if 1 / 2 \<le> w / 100 * real (naturalWidth img)
                then \<bar>w' - w\<bar> \<le> 50 / real (naturalWidth img) + 1 / 10 ^ 12
                else \<bar>w' - 100 / real (naturalWidth img)\<bar> \<le> 1 / 10 ^ 12)
           \<and> (if 1 / 2 \<le> h / 100 * real (naturalHeight img)
                then \<bar>h' - h\<bar> \<le> 50 / real (naturalHeight img) + 1 / 10 ^ 12
                else \<bar>h' - 100 / real (naturalHeight img)\<bar> \<le> 1 / 10 ^ 12)"
  unfolding round_trip_Fin [OF nat(1) nat(3)]
  by (rule exI conjI refl
      origin_recovered [OF rng(1) rng(2) nat(1) refl] origin_recovered [OF rng(3) rng(4) nat(3) refl]
      extent_recovered [OF rng(5) rng(6) nat(1) nat(2) refl]
      extent_recovered [OF rng(7) rng(8) nat(3) nat(4) refl])+

theorem round_trip_percent_witness:
  "\<exists>a' b' w' h'.
     round_trip (selection Pct (Some 12) (Some 26) (Some 76) (Some 0)) small_image
       = selection Pct (Some a') (Some b') (Some w') (Some h')
     \<and> \<bar>a' - 12\<bar> \<le> 50 / 50 + 1 / 10 ^ 12 \<and> \<bar>b' - 26\<bar> \<le> 50 / 25 + 1 / 10 ^ 12
     \<and> \<bar>w' - 76\<bar> \<le> 50 / 50 + 1 / 10 ^ 12 \<and> \<bar>h' - 100 / 25\<bar> \<le> 1 / 10 ^ 12"
  using round_trip_percent [of small_image 12 26 76 0] by (simp add: small_image_def)

text \<open>
  Two computations in doubles on an image of 50 by 25 pixels. 29 percent of 50 pixels is
  14.499999999999998 in doubles and rounds to 14, where the exact 14.5 would round to 15.
  26 percent of 25 pixels is 6.5 and rounds to 7; 7 of 25 pixels come back as
  28.000000000000004 percent, which is more than half a pixel (2 percent) from 26.
\<close>

lemma small_image_pixels:
  "toPixelCrop (selection Pct (Some 29) (Some 26) (Some 100) (Some 100)) small_image
     = \<lparr>px_x = Fin 14, px_y = Fin 7, px_width = Fin 50, px_height = Fin 25\<rparr>"
  by code_simp

lemma small_image_round_trip:
  "y (round_trip (selection Pct (Some 29) (Some 26) (Some 100) (Some 100)) small_image)
     = Some (Fin (7881299347898369 / 281474976710656))"
  by code_simp

text \<open>
  Claim C2 as stated fails for the empty selection at the origin: every pixel value is
  the whole number 0, so rounding to whole pixels changes nothing, yet the width comes
  back as one pixel of 1000, 0.1 percent, which is not within 0.05 percent of 0.
\<close>

lemma empty_selection_width:
  "\<exists>w'. width (round_trip (selection Pct (Some 0) (Some 0) (Some 0) (Some 0)) example_image) = Some (Fin w')
        \<and> \<bar>w' - 100 / 1000\<bar> \<le> 1 / 10 ^ 12"
proof -
  have n: "0 < naturalWidth example_image" "naturalWidth example_image < 2 ^ 32"
    "0 < naturalHeight example_image"
    by (simp_all add: example_image_def)
  have r: "real (naturalWidth example_image) = 1000" by (simp add: example_image_def)
  have z: "(0::real) \<le> 0" "(0::real) \<le> 100" by simp_all
  define W where "W = to_double (to_double (max 1 (of_int \<lfloor>to_double (to_double (0 / 100)
      * real (naturalWidth example_image)) + 1 / 2\<rfloor>) / real (naturalWidth example_image)) * 100)"
  have "width (round_trip (selection Pct (Some 0) (Some 0) (Some 0) (Some 0)) example_image) = Some (Fin W)"
    by (simp only: round_trip_Fin [OF n(1) n(3)]) (simp add: selection_def W_def)
  moreover have "\<bar>W - 100 / 1000\<bar> \<le> 1 / 10 ^ 12"
    using extent_recovered [OF z n(1) n(2) refl] unfolding W_def r by simp
  ultimately show ?thesis by blast
qed

theorem round_trip_law_counterexample:
  "\<not> round_trip_law (selection Pct (Some 0) (Some 0) (Some 0) (Some 0)) example_image"
proof -
  obtain w' where w: "width (round_trip (selection Pct (Some 0) (Some 0) (Some 0) (Some 0)) example_image) = Some (Fin w')"
    and near: "\<bar>w' - 100 / 1000\<bar> \<le> 1 / 10 ^ 12"
    using empty_selection_width by blast
  have "(1::real) / 10 ^ 12 < 1 / 100" by simp
  then have "\<not> \<bar>w' - 0\<bar> \<le> 50 / 1000" using near by linarith
  then have "\<not> within_half_pixel (naturalWidth example_image)
      (width (selection Pct (Some 0) (Some 0) (Some 0) (Some 0)))
      (width (round_trip (selection Pct (Some 0) (Some 0) (Some 0) (Some 0)) example_image))"
    unfolding w by (simp add: within_half_pixel_def selection_def example_image_def)
  then show ?thesis by (simp add: round_trip_law_def Let_def)
qed

section \<open>Verification: search client\<close>

lemma not_ok_404: "status r = 404 \<Longrightarrow> \<not> ok r"
  by (simp add: ok_def)

lemma not_ok_503: "status r = 503 \<Longrightarrow> \<not> ok r"
  by (simp add: ok_def)

lemma try_paths_skip_404:
  assumes "\<forall>p\<in>set ps. answers_404 fetch base p"
  shows "try_paths fetch base lastText (ps @ qs) =
          (fst (try_paths fetch base (body_after fetch base lastText ps) qs),
           map ((@) base) ps @ snd (try_paths fetch base (body_after fetch base lastText ps) qs))"
  using assms
proof (induction ps arbitrary: lastText)
  case Nil
  then show ?case by simp
next
  case (Cons p ps)
  from Cons.prems obtain r where r: "fetch (base @ p) = Resolved r" "status r = 404"
    by (auto simp: answers_404_def split: fetch_result.splits)
  have rest: "\<forall>p\<in>set ps. answers_404 fetch base p" using Cons.prems by simp
  show ?case
    using r not_ok_404 [OF r(2)] Cons.IH [OF rest, of "nullish (text_body r) []"]
    by (simp add: requested_def)
qed

lemma body_after_last:
  assumes "fetch (base @ q) = Resolved r"
  shows "body_after fetch base lastText (ps @ [q]) = nullish (text_body r) []"
  using assms by (induction ps arbitrary: lastText) simp_all

lemma try_paths_503:
  assumes "\<forall>p\<in>set ps. answers_404 fetch base p"
    and "fetch (base @ q) = Resolved r" "status r = 503"
  shows "try_paths fetch base lastText (ps @ q # rest) = (Inl ServiceUnavailable, map ((@) base) (ps @ [q]))"
  unfolding try_paths_skip_404 [OF assms(1)]
  using assms(2,3) not_ok_503 [OF assms(3)] by (simp add: requested_def)

lemma try_paths_other:
  assumes "\<forall>p\<in>set ps. answers_404 fetch base p"
    and "fetch (base @ q) = Resolved r" "\<not> ok r" "status r \<noteq> 503" "status r \<noteq> 404"
  shows "try_paths fetch base lastText (ps @ q # rest) =
          (Inl (HttpError (status r) (statusText r) (nullish (text_body r) [])), map ((@) base) (ps @ [q]))"
  unfolding try_paths_skip_404 [OF assms(1)]
  using assms(2-) by (simp add: requested_def)

lemma try_paths_all_404:
  assumes "\<forall>p\<in>set ps. answers_404 fetch base p"
  shows "try_paths fetch base lastText ps =
          (Inl (NotFoundError (body_after fetch base lastText ps)), map ((@) base) ps)"
  using try_paths_skip_404 [OF assms, of lastText "[]"] by simp

lemma try_paths_requests_next:
  assumes "\<forall>p\<in>set ps. answers_404 fetch base p"
  shows "take (Suc (length ps)) (snd (try_paths fetch base lastText (ps @ q # rest))) = map ((@) base) (ps @ [q])"
  unfolding try_paths_skip_404 [OF assms]
  by (simp add: requested_def)

lemma run_resolved:
  assumes "coalesce (NEXT_PUBLIC_API_BASE env) (NEXT_PUBLIC_BACKEND_URL env) = Some base" "base \<noteq> []"
  shows "runSearchByUpload env fetch = try_paths fetch base [] paths"
  using assms by (simp add: runSearchByUpload_def)

lemma not_requested_later:
  assumes "paths = ps @ q # rest" "p \<in> set rest"
  shows "base @ p \<notin> set (map ((@) base) (ps @ [q]))"
proof -
  have "distinct paths" by (simp add: paths_def)
  then have "distinct (ps @ q # rest)" unfolding assms(1) .
  then have "p \<notin> set (ps @ [q])" using assms(2) by auto
  then show ?thesis by auto
qed

text \<open>
  Claim C3, as amended. \<open>runSearchByUpload\<close> takes \<open>NEXT_PUBLIC_API_BASE\<close> whenever that
  variable is defined, also when it is the empty string, and \<open>NEXT_PUBLIC_BACKEND_URL\<close>
  only when the first is undefined. A non-empty value so chosen is the base of every
  request, the first of which goes to \<open>/search/by-upload\<close>. When the value chosen is
  undefined or empty, and so when both variables are absent, the search fails with
  \<open>ConfigError\<close> and requests nothing.
\<close>

theorem base_resolution:
  "(NEXT_PUBLIC_API_BASE env = Some b \<and> b \<noteq> [] \<longrightarrow>
      runSearchByUpload env fetch = try_paths fetch b [] paths)
   \<and> (NEXT_PUBLIC_API_BASE env = None \<and> NEXT_PUBLIC_BACKEND_URL env = Some b \<and> b \<noteq> [] \<longrightarrow>
      runSearchByUpload env fetch = try_paths fetch b [] paths)
   \<and> (NEXT_PUBLIC_API_BASE env = Some [] \<longrightarrow>
      runSearchByUpload env fetch = (Inl ConfigError, []))
   \<and> (NEXT_PUBLIC_API_BASE env = None \<and>
        (NEXT_PUBLIC_BACKEND_URL env = None \<or> NEXT_PUBLIC_BACKEND_URL env = Some []) \<longrightarrow>
      runSearchByUpload env fetch = (Inl ConfigError, []))
   \<and> hd (snd (try_paths fetch b [] paths)) = b @ ''/search/by-upload''"
  by (auto simp: runSearchByUpload_def paths_def requested_def)

theorem base_resolution_witness:
  "runSearchByUpload example_env fetch_503_first = try_paths fetch_503_first ''http://api'' [] paths
   \<and> runSearchByUpload \<lparr>NEXT_PUBLIC_API_BASE = None, NEXT_PUBLIC_BACKEND_URL = Some ''http://api''\<rparr> fetch_503_first
       = try_paths fetch_503_first ''http://api'' [] paths
   \<and> runSearchByUpload empty_first_env fetch_ok = (Inl ConfigError, [])
   \<and> runSearchByUpload \<lparr>NEXT_PUBLIC_API_BASE = None, NEXT_PUBLIC_BACKEND_URL = None\<rparr> fetch_ok = (Inl ConfigError, [])"
  using base_resolution [of example_env "''http://api''" fetch_503_first]
    base_resolution [of "\<lparr>NEXT_PUBLIC_API_BASE = None, NEXT_PUBLIC_BACKEND_URL = Some ''http://api''\<rparr>" "''http://api''" fetch_503_first]
    base_resolution [of empty_first_env "[]" fetch_ok]
    base_resolution [of "\<lparr>NEXT_PUBLIC_API_BASE = None, NEXT_PUBLIC_BACKEND_URL = None\<rparr>" "[]" fetch_ok]
  by (simp add: example_env_def empty_first_env_def)

text \<open>
  Claim C3 as stated fails when the first variable is set to the empty string and the
  second to an address: the first non-empty value is that address, and the search fails
  with \<open>ConfigError\<close> all the same.
\<close>

theorem first_non_empty_counterexample:
  "first_non_empty empty_first_env = Some ''http://api''
   \<and> runSearchByUpload empty_first_env fetch_ok = (Inl ConfigError, [])"
  by (simp add: first_non_empty_def empty_first_env_def runSearchByUpload_def)

lemma try_paths_stops_at_failure:
  assumes "url \<in> set (snd (try_paths fetch base lastText ps))"
    and "fetch url = Resolved r" "\<not> ok r" "status r \<noteq> 404"
  shows "fst (try_paths fetch base lastText ps) =
           Inl (if status r = 503 then ServiceUnavailable
                else HttpError (status r) (statusText r) (nullish (text_body r) []))
         \<and> last (snd (try_paths fetch base lastText ps)) = url"
  using assms(1)
proof (induction ps arbitrary: lastText)
  case Nil
  then show ?case by simp
next
  case (Cons p ps)
  show ?case
  proof (cases "fetch (base @ p)")
    case Rejected
    then show ?thesis using Cons.prems assms(2) by (auto simp: requested_def)
  next
    case (Resolved r')
    show ?thesis
    proof (cases "\<not> ok r' \<and> status r' = 404")
      case True
      then have step: "try_paths fetch base lastText (p # ps) =
          requested (base @ p) (try_paths fetch base (nullish (text_body r') []) ps)"
        using Resolved by simp
      have "url \<noteq> base @ p" using Resolved True assms(2,4) by auto
      then have mem: "url \<in> set (snd (try_paths fetch base (nullish (text_body r') []) ps))"
        using Cons.prems step by (simp add: requested_def)
      then have ne: "snd (try_paths fetch base (nullish (text_body r') []) ps) \<noteq> []" by auto
      show ?thesis
        using Cons.IH [OF mem] ne unfolding step by (simp add: requested_def)
    next
      case False
      then have "snd (try_paths fetch base lastText (p # ps)) = [base @ p]"
        using Resolved by (auto simp: requested_def Let_def split: option.splits)
      then have "url = base @ p" using Cons.prems by simp
      then have "r' = r" using Resolved assms(2) by simp
      then show ?thesis
        using Resolved assms(3,4) \<open>url = base @ p\<close> by (simp add: requested_def Let_def)
    qed
  qed
qed

lemma run_stops_at_failure:
  assumes "url \<in> set (snd (runSearchByUpload env fetch))"
    and "fetch url = Resolved r" "\<not> ok r" "status r \<noteq> 404"
  shows "fst (runSearchByUpload env fetch) =
           Inl (if status r = 503 then ServiceUnavailable
                else HttpError (status r) (statusText r) (nullish (text_body r) []))
         \<and> last (snd (runSearchByUpload env fetch)) = url"
proof (cases "falsy_string (coalesce (NEXT_PUBLIC_API_BASE env) (NEXT_PUBLIC_BACKEND_URL env))")
  case True
  then show ?thesis using assms(1) by (simp add: runSearchByUpload_def)
next
  case False
  then have eq: "runSearchByUpload env fetch =
      try_paths fetch (nullish (coalesce (NEXT_PUBLIC_API_BASE env) (NEXT_PUBLIC_BACKEND_URL env)) []) [] paths"
    by (simp add: runSearchByUpload_def)
  have mem: "url \<in> set (snd (try_paths fetch
      (nullish (coalesce (NEXT_PUBLIC_API_BASE env) (NEXT_PUBLIC_BACKEND_URL env)) []) [] paths))"
    using assms(1) unfolding eq .
  show ?thesis
    unfolding eq by (rule try_paths_stops_at_failure [OF mem assms(2) assms(3) assms(4)])
qed

text \<open>
  Claim C4. (1) When a URL that the search has requested answers 503, the search fails
  with \<open>ServiceUnavailable\<close> and that request is the last one made. (2) With a base
  address configured, let the candidate \<open>q\<close> answer 503 after the candidates \<open>ps\<close> before
  it have answered 404, as they must for \<open>q\<close> to be reached: the requests made are those
  for \<open>ps\<close> and \<open>q\<close>, in order, and no candidate after \<open>q\<close> is requested. With \<open>ps\<close>
  empty: when the first candidate answers 503 the second is never contacted.
\<close>

theorem unavailable_stops_fallback:
  "(url \<in> set (snd (runSearchByUpload env fetch)) \<and> fetch url = Resolved r \<and> status r = 503 \<longrightarrow>
      fst (runSearchByUpload env fetch) = Inl ServiceUnavailable
      \<and> last (snd (runSearchByUpload env fetch)) = url)
   \<and> (coalesce (NEXT_PUBLIC_API_BASE env) (NEXT_PUBLIC_BACKEND_URL env) = Some base \<and> base \<noteq> [] \<and>
       paths = ps @ q # rest \<and> (\<forall>p\<in>set ps. answers_404 fetch base p) \<and>
       fetch (base @ q) = Resolved r \<and> status r = 503 \<longrightarrow>
      runSearchByUpload env fetch = (Inl ServiceUnavailable, map ((@) base) (ps @ [q]))
      \<and> (\<forall>p\<in>set rest. base @ p \<notin> set (snd (runSearchByUpload env fetch))))"
proof (intro conjI impI)
  assume a: "url \<in> set (snd (runSearchByUpload env fetch)) \<and> fetch url = Resolved r \<and> status r = 503"
  then have "\<not> ok r" "status r \<noteq> 404" by (simp_all add: ok_def)
  with a show "fst (runSearchByUpload env fetch) = Inl ServiceUnavailable"
    and "last (snd (runSearchByUpload env fetch)) = url"
    using run_stops_at_failure [of url env fetch r] by simp_all
next
  assume a: "coalesce (NEXT_PUBLIC_API_BASE env) (NEXT_PUBLIC_BACKEND_URL env) = Some base \<and> base \<noteq> [] \<and>
       paths = ps @ q # rest \<and> (\<forall>p\<in>set ps. answers_404 fetch base p) \<and>
       fetch (base @ q) = Resolved r \<and> status r = 503"
  then have b: "coalesce (NEXT_PUBLIC_API_BASE env) (NEXT_PUBLIC_BACKEND_URL env) = Some base" "base \<noteq> []"
    and p: "paths = ps @ q # rest" and n: "\<forall>p\<in>set ps. answers_404 fetch base p"
    and r: "fetch (base @ q) = Resolved r" "status r = 503"
    by simp_all
  show run: "runSearchByUpload env fetch = (Inl ServiceUnavailable, map ((@) base) (ps @ [q]))"
    unfolding run_resolved [OF b] p by (rule try_paths_503 [OF n r])
  show "\<forall>p\<in>set rest. base @ p \<notin> set (snd (runSearchByUpload env fetch))"
    unfolding run using not_requested_later [OF p] by simp
qed

theorem unavailable_stops_fallback_witness:
  "runSearchByUpload example_env fetch_503_first = (Inl ServiceUnavailable, [''http://api/search/by-upload''])
   \<and> fst (runSearchByUpload example_env fetch_503_first) = Inl ServiceUnavailable
   \<and> last (snd (runSearchByUpload example_env fetch_503_first)) = ''http://api/search/by-upload''
   \<and> ''http://api/search/image'' \<notin> set (snd (runSearchByUpload example_env fetch_503_first))"
proof -
  have run: "runSearchByUpload example_env fetch_503_first
      = (Inl ServiceUnavailable, [''http://api/search/by-upload''])"
    using unavailable_stops_fallback [of _ example_env fetch_503_first
        "response 503 ''Service Unavailable'' ''busy''" "''http://api''" "[]" "''/search/by-upload''"
        "[''/search/image'']", THEN conjunct2]
    by (simp add: example_env_def paths_def fetch_503_first_def response_def)
  then have mem: "''http://api/search/by-upload'' \<in> set (snd (runSearchByUpload example_env fetch_503_first))"
    by simp
  have "fst (runSearchByUpload example_env fetch_503_first) = Inl ServiceUnavailable
      \<and> last (snd (runSearchByUpload example_env fetch_503_first)) = ''http://api/search/by-upload''"
    using unavailable_stops_fallback [of "''http://api/search/by-upload''" example_env fetch_503_first
        "response 503 ''Service Unavailable'' ''busy''", THEN conjunct1] mem
    by (simp add: fetch_503_first_def response_def)
  then show ?thesis using run by simp
qed

text \<open>
  Claim C5. With a base address configured: (1) when the candidates \<open>ps\<close> answer 404 the
  next candidate \<open>q\<close> is requested after them; (2) when every candidate answers 404 the
  search fails with \<open>NotFoundError\<close> carrying the body of the last response (the empty
  string when that body cannot be read), after requesting all of them; (3) when the
  candidate reached answers a status that is neither 2xx nor 503 nor 404, the search
  fails at once with \<open>HttpError\<close> carrying that status, its reason phrase and the body.
  (4) In general, when a URL that the search has requested answers such a status, the
  search fails with that \<open>HttpError\<close> and the request is the last one made.
\<close>

theorem fallback_on_404:
  assumes "coalesce (NEXT_PUBLIC_API_BASE env) (NEXT_PUBLIC_BACKEND_URL env) = Some base" "base \<noteq> []"
  shows "(paths = ps @ q # rest \<and> (\<forall>p\<in>set ps. answers_404 fetch base p) \<longrightarrow>
            take (Suc (length ps)) (snd (runSearchByUpload env fetch)) = map ((@) base) (ps @ [q]))
       \<and> ((\<forall>p\<in>set paths. answers_404 fetch base p) \<and> fetch (base @ last paths) = Resolved r \<longrightarrow>
            runSearchByUpload env fetch =
              (Inl (NotFoundError (nullish (text_body r) [])), map ((@) base) paths))
       \<and> (paths = ps @ q # rest \<and> (\<forall>p\<in>set ps. answers_404 fetch base p) \<and>
            fetch (base @ q) = Resolved r \<and> \<not> ok r \<and> status r \<noteq> 503 \<and> status r \<noteq> 404 \<longrightarrow>
            runSearchByUpload env fetch =
              (Inl (HttpError (status r) (statusText r) (nullish (text_body r) [])),
               map ((@) base) (ps @ [q])))
       \<and> (url \<in> set (snd (runSearchByUpload env fetch)) \<and> fetch url = Resolved r \<and>
            \<not> ok r \<and> status r \<noteq> 503 \<and> status r \<noteq> 404 \<longrightarrow>
            fst (runSearchByUpload env fetch) =
              Inl (HttpError (status r) (statusText r) (nullish (text_body r) []))
            \<and> last (snd (runSearchByUpload env fetch)) = url)"
proof (intro conjI impI)
  assume a: "paths = ps @ q # rest \<and> (\<forall>p\<in>set ps. answers_404 fetch base p)"
  then have p: "paths = ps @ q # rest" and n: "\<forall>p\<in>set ps. answers_404 fetch base p"
    by simp_all
  show "take (Suc (length ps)) (snd (runSearchByUpload env fetch)) = map ((@) base) (ps @ [q])"
    unfolding run_resolved [OF assms] p by (rule try_paths_requests_next [OF n])
next
  assume a: "(\<forall>p\<in>set paths. answers_404 fetch base p) \<and> fetch (base @ last paths) = Resolved r"
  have "paths = butlast paths @ [last paths]" by (simp add: paths_def)
  then have "body_after fetch base [] paths = nullish (text_body r) []"
    using body_after_last [of fetch base "last paths" r "[]" "butlast paths"] a by simp
  then show "runSearchByUpload env fetch =
      (Inl (NotFoundError (nullish (text_body r) [])), map ((@) base) paths)"
    unfolding run_resolved [OF assms] using try_paths_all_404 [of paths fetch base "[]"] a by simp
next
  assume a: "paths = ps @ q # rest \<and> (\<forall>p\<in>set ps. answers_404 fetch base p) \<and>
            fetch (base @ q) = Resolved r \<and> \<not> ok r \<and> status r \<noteq> 503 \<and> status r \<noteq> 404"
  then have p: "paths = ps @ q # rest" and n: "\<forall>p\<in>set ps. answers_404 fetch base p"
    and r: "fetch (base @ q) = Resolved r" "\<not> ok r" "status r \<noteq> 503" "status r \<noteq> 404"
    by simp_all
  show "runSearchByUpload env fetch =
              (Inl (HttpError (status r) (statusText r) (nullish (text_body r) [])),
               map ((@) base) (ps @ [q]))"
    unfolding run_resolved [OF assms] p by (rule try_paths_other [OF n r])
next
  assume a: "url \<in> set (snd (runSearchByUpload env fetch)) \<and> fetch url = Resolved r \<and>
            \<not> ok r \<and> status r \<noteq> 503 \<and> status r \<noteq> 404"
  then show "fst (runSearchByUpload env fetch) =
              Inl (HttpError (status r) (statusText r) (nullish (text_body r) []))"
    and "last (snd (runSearchByUpload env fetch)) = url"
    using run_stops_at_failure [of url env fetch r] by simp_all
qed

theorem fallback_on_404_witness:
  "runSearchByUpload example_env fetch_all_404 =
     (Inl (NotFoundError ''second''), [''http://api/search/by-upload'', ''http://api/search/image''])
   \<and> runSearchByUpload example_env fetch_404_then_500 =
     (Inl (HttpError 500 ''Internal Server Error'' ''boom''),
      [''http://api/search/by-upload'', ''http://api/search/image''])
   \<and> take 2 (snd (runSearchByUpload example_env fetch_404_then_500)) =
      [''http://api/search/by-upload'', ''http://api/search/image'']
   \<and> last (snd (runSearchByUpload example_env fetch_404_then_500)) = ''http://api/search/image''"
  using fallback_on_404 [of example_env "''http://api''" "[''/search/by-upload'']" "''/search/image''" "[]"
      fetch_all_404 "response 404 ''Not Found'' ''second''" "''http://api/search/image''"]
    fallback_on_404 [of example_env "''http://api''" "[''/search/by-upload'']" "''/search/image''" "[]"
      fetch_404_then_500 "response 500 ''Internal Server Error'' ''boom''" "''http://api/search/image''"]
  by (simp add: example_env_def paths_def fetch_all_404_def fetch_404_then_500_def response_def
      answers_404_def ok_def)

section \<open>Verification: dedupe\<close>

lemma upt_Suc_shift: "[0..<Suc n] = 0 # map Suc [0..<n]"
  by (simp add: upt_conv_Cons map_Suc_upt del: upt_Suc)

lemma first_index_Suc:
  "(\<forall>j<Suc i. f ((h # hs) ! j) \<noteq> k) \<longleftrightarrow> (f h \<noteq> k \<and> (\<forall>j<i. f (hs ! j) \<noteq> k))"
  by (auto simp: less_Suc_eq_0_disj)

lemma dedupe_from_first_occurrences:
  "dedupe_from seen hs =
     map ((!) hs)
       (filter (\<lambda>i. hit_key (hs ! i) \<notin> seen \<and> (\<forall>j<i. hit_key (hs ! j) \<noteq> hit_key (hs ! i)))
          [0..<length hs])"
proof (induction hs arbitrary: seen)
  case Nil
  then show ?case by simp
next
  case (Cons h hs)
  show ?case
  proof (cases "hit_key h \<in> seen")
    case True
    have same: "(\<lambda>i. hit_key (hs ! i) \<notin> seen \<and> hit_key h \<noteq> hit_key (hs ! i) \<and> (\<forall>j<i. hit_key (hs ! j) \<noteq> hit_key (hs ! i)))
          = (\<lambda>i. hit_key (hs ! i) \<notin> seen \<and> (\<forall>j<i. hit_key (hs ! j) \<noteq> hit_key (hs ! i)))"
      using True by auto
    show ?thesis
      using True Cons.IH [of seen]
      by (simp add: upt_Suc_shift filter_map comp_def first_index_Suc same del: upt_Suc)
  next
    case False
    have same: "(\<lambda>i. hit_key (hs ! i) \<notin> seen \<and> hit_key h \<noteq> hit_key (hs ! i) \<and> (\<forall>j<i. hit_key (hs ! j) \<noteq> hit_key (hs ! i)))
          = (\<lambda>i. hit_key (hs ! i) \<notin> insert (hit_key h) seen \<and> (\<forall>j<i. hit_key (hs ! j) \<noteq> hit_key (hs ! i)))"
      by auto
    show ?thesis
      using False Cons.IH [of "insert (hit_key h) seen"]
      by (simp add: upt_Suc_shift filter_map comp_def first_index_Suc same del: upt_Suc)
  qed
qed

text \<open>
  Claim C6, as amended. \<open>dedupedResults\<close> keeps, in input order, exactly the hits that are
  the first of their key string, the key string being identifier, link-or-empty and
  image-or-empty joined by hyphens: two hits are conflated if and only if their key
  strings are equal. Hits that agree on the triple (identifier, link-or-empty,
  image-or-empty) have equal key strings and so are conflated.
\<close>

theorem dedupe_first_of_each_key:
  "dedupedResults hs =
     map ((!) hs) (filter (\<lambda>i. \<forall>j<i. hit_key (hs ! j) \<noteq> hit_key (hs ! i)) [0..<length hs])
   \<and> (key_triple g = key_triple h \<longrightarrow> hit_key g = hit_key h)"
  by (simp add: dedupedResults_def dedupe_from_first_occurrences key_triple_def hit_key_def)

lemma decimal_digit: "n < 10 \<Longrightarrow> decimal n = [digit_char n]"
  by (simp add: decimal.simps)

lemma hit_key_bare_1: "hit_key (bare_hit 1 link img) = ''1-'' @ nullish link [] @ ''-'' @ nullish img []"
  by (simp add: hit_key_def bare_hit_def number_to_string_def decimal_digit digit_char_def)

lemma hit_key_bare_2: "hit_key (bare_hit 2 link img) = ''2-'' @ nullish link [] @ ''-'' @ nullish img []"
  by (simp add: hit_key_def bare_hit_def number_to_string_def decimal_digit digit_char_def)

theorem dedupe_first_of_each_key_witness:
  "key_triple (bare_hit 1 (Some ''a'') None) = key_triple (bare_hit 1 (Some ''a'') (Some []))
   \<and> hit_key (bare_hit 1 (Some ''a'') None) = hit_key (bare_hit 1 (Some ''a'') (Some []))
   \<and> dedupedResults [bare_hit 1 (Some ''a'') None, bare_hit 2 None None, bare_hit 1 (Some ''a'') (Some [])]
     = [bare_hit 1 (Some ''a'') None, bare_hit 2 None None]"
proof -
  have t: "key_triple (bare_hit 1 (Some ''a'') None) = key_triple (bare_hit 1 (Some ''a'') (Some []))"
    by (simp add: key_triple_def bare_hit_def)
  have k: "hit_key (bare_hit 1 (Some ''a'') None) = hit_key (bare_hit 1 (Some ''a'') (Some []))"
    using dedupe_first_of_each_key [of "[]" "bare_hit 1 (Some ''a'') None" "bare_hit 1 (Some ''a'') (Some [])"] t
    by blast
  have d: "dedupedResults [bare_hit 1 (Some ''a'') None, bare_hit 2 None None, bare_hit 1 (Some ''a'') (Some [])]
     = [bare_hit 1 (Some ''a'') None, bare_hit 2 None None]"
    by (simp add: dedupedResults_def hit_key_bare_1 hit_key_bare_2)
  show ?thesis using t k d by blast
qed

text \<open>
  Claim C6 as stated fails in its "only if": the hyphen that joins the key also occurs
  inside links and images. The hits \<open>(1, a-b, c)\<close> and \<open>(1, a, b-c)\<close> differ on the triple
  and both have the key \<open>1-a-b-c\<close>, so the second is dropped.
\<close>

theorem dedupe_triple_counterexample:
  "key_triple (bare_hit 1 (Some ''a-b'') (Some ''c'')) \<noteq> key_triple (bare_hit 1 (Some ''a'') (Some ''b-c''))
   \<and> dedupedResults [bare_hit 1 (Some ''a-b'') (Some ''c''), bare_hit 1 (Some ''a'') (Some ''b-c'')]
       = [bare_hit 1 (Some ''a-b'') (Some ''c'')]"
proof
  show "key_triple (bare_hit 1 (Some ''a-b'') (Some ''c'')) \<noteq> key_triple (bare_hit 1 (Some ''a'') (Some ''b-c''))"
    by (simp add: key_triple_def bare_hit_def)
  show "dedupedResults [bare_hit 1 (Some ''a-b'') (Some ''c''), bare_hit 1 (Some ''a'') (Some ''b-c'')]
       = [bare_hit 1 (Some ''a-b'') (Some ''c'')]"
    by (simp add: dedupedResults_def hit_key_bare_1)
qed

section \<open>Verification: sort\<close>

lemma set_sort_insert: "set (sort_insert cmp a bs) = insert a (set bs)"
  by (induction bs) auto

lemma mset_sort_insert: "mset (sort_insert cmp a bs) = add_mset a (mset bs)"
  by (induction bs) auto

lemma mset_Array_sort: "mset (Array_sort cmp arr) = mset arr"
  by (induction arr) (simp_all add: Array_sort_def mset_sort_insert)

lemma price_cmp_priceless_priced:
  assumes "k = priceAsc \<or> k = priceDesc" "price a = None" "price b \<noteq> None"
  shows "num_gt (price_cmp k a b) (Fin 0)"
  using assms by (auto simp: price_cmp_def price_or_def num_gt_def)

lemma price_cmp_priced_priceless:
  assumes "k = priceAsc \<or> k = priceDesc" "price a \<noteq> None" "price b = None"
  shows "\<not> num_gt (price_cmp k a b) (Fin 0)"
  using assms by (auto simp: price_cmp_def price_or_def num_gt_def)

lemma priced_first_sort_insert:
  assumes k: "k = priceAsc \<or> k = priceDesc" and "priced_first bs"
  shows "priced_first (sort_insert (price_cmp k) a bs)"
  using assms(2)
proof (induction bs)
  case Nil
  then show ?case by simp
next
  case (Cons b bs)
  show ?case
  proof (cases "num_gt (price_cmp k a b) (Fin 0)")
    case True
    then have "price a = None \<or> price b \<noteq> None"
      using price_cmp_priced_priceless [OF k, of a b] by blast
    then show ?thesis
      using True Cons by (auto simp: set_sort_insert)
  next
    case False
    then have "price a \<noteq> None \<or> price b = None"
      using price_cmp_priceless_priced [OF k, of a b] by blast
    then show ?thesis
      using False Cons by auto
  qed
qed

lemma priced_first_Array_sort:
  assumes "k = priceAsc \<or> k = priceDesc"
  shows "priced_first (Array_sort (price_cmp k) arr)"
proof (induction arr)
  case Nil
  then show ?case by (simp add: Array_sort_def)
next
  case (Cons a arr)
  then show ?case
    using priced_first_sort_insert [OF assms, of "Array_sort (price_cmp k) arr" a]
    by (simp add: Array_sort_def)
qed

lemma sortedResults_price_cmp:
  assumes "k = priceAsc \<or> k = priceDesc"
  shows "sortedResults k deduped = Array_sort (price_cmp k) deduped"
proof -
  have "price_cmp priceAsc = (\<lambda>a b. num_sub (price_or a PosInf) (price_or b PosInf))"
    by (intro ext) (simp add: price_cmp_def)
  moreover have "price_cmp priceDesc = (\<lambda>a b. num_sub (price_or b NegInf) (price_or a NegInf))"
    by (intro ext) (simp add: price_cmp_def)
  ultimately show ?thesis using assms by auto
qed

lemma priced_first_nth:
  assumes "priced_first hs" "i < j" "j < length hs" "price (hs ! i) = None"
  shows "price (hs ! j) = None"
  using assms
proof (induction hs arbitrary: i j)
  case Nil
  then show ?case by simp
next
  case (Cons h hs)
  obtain j' where j: "j = Suc j'" using Cons.prems(2) by (cases j) auto
  show ?case
  proof (cases i)
    case 0
    then have "\<forall>g\<in>set hs. price g = None" using Cons.prems by simp
    then show ?thesis using j Cons.prems(3) by simp
  next
    case (Suc i')
    then show ?thesis using Cons j by simp
  qed
qed

text \<open>
  Claim C7. Under \<open>priceAsc\<close> and under \<open>priceDesc\<close> the sorted sequence holds the same
  hits as its input, and in it a hit without a price is never followed by a hit with a
  price: every hit with a missing price comes after all hits that have one. The
  comparators read a missing price as \<open>Infinity\<close> when ascending and as \<open>-Infinity\<close>
  when descending.
\<close>

theorem priceless_sorted_last:
  assumes "sortBy = priceAsc \<or> sortBy = priceDesc"
  shows "mset (sortedResults sortBy deduped) = mset deduped
         \<and> (\<forall>i j. i < j \<and> j < length (sortedResults sortBy deduped)
                  \<and> price (sortedResults sortBy deduped ! i) = None
                \<longrightarrow> price (sortedResults sortBy deduped ! j) = None)"
proof -
  let ?s = "sortedResults sortBy deduped"
  have m: "mset ?s = mset deduped"
    unfolding sortedResults_price_cmp [OF assms] by (rule mset_Array_sort)
  then have len: "length ?s = length deduped"
    by (rule mset_eq_length)
  have "priced_first ?s"
    unfolding sortedResults_price_cmp [OF assms] by (rule priced_first_Array_sort [OF assms])
  then show ?thesis
    using m len priced_first_nth [of ?s] by auto
qed

lemma example_sorted_asc:
  "sortedResults priceAsc [priced_hit 1 None, priced_hit 2 (Some 30), priced_hit 3 None, priced_hit 4 (Some 10)]
     = [priced_hit 4 (Some 10), priced_hit 2 (Some 30), priced_hit 1 None, priced_hit 3 None]"
  by (simp add: Array_sort_def price_or_def priced_hit_def num_gt_def)

lemma example_sorted_desc:
  "sortedResults priceDesc [priced_hit 1 None, priced_hit 2 (Some 30), priced_hit 3 None, priced_hit 4 (Some 10)]
     = [priced_hit 2 (Some 30), priced_hit 4 (Some 10), priced_hit 1 None, priced_hit 3 None]"
  by (simp add: Array_sort_def price_or_def priced_hit_def num_gt_def)

theorem priceless_sorted_last_witness:
  "price (sortedResults priceAsc
            [priced_hit 1 None, priced_hit 2 (Some 30), priced_hit 3 None, priced_hit 4 (Some 10)] ! 2) = None
   \<and> price (sortedResults priceAsc
            [priced_hit 1 None, priced_hit 2 (Some 30), priced_hit 3 None, priced_hit 4 (Some 10)] ! 3) = None
   \<and> price (sortedResults priceDesc
            [priced_hit 1 None, priced_hit 2 (Some 30), priced_hit 3 None, priced_hit 4 (Some 10)] ! 2) = None
   \<and> price (sortedResults priceDesc
            [priced_hit 1 None, priced_hit 2 (Some 30), priced_hit 3 None, priced_hit 4 (Some 10)] ! 3) = None"
proof -
  let ?hs = "[priced_hit 1 None, priced_hit 2 (Some 30), priced_hit 3 None, priced_hit 4 (Some 10)]"
  have a2: "price (sortedResults priceAsc ?hs ! 2) = None"
    unfolding example_sorted_asc by (simp add: priced_hit_def)
  have d2: "price (sortedResults priceDesc ?hs ! 2) = None"
    unfolding example_sorted_desc by (simp add: priced_hit_def)
  have la: "length (sortedResults priceAsc ?hs) = 4"
    unfolding example_sorted_asc by simp
  have ld: "length (sortedResults priceDesc ?hs) = 4"
    unfolding example_sorted_desc by simp
  have a3: "price (sortedResults priceAsc ?hs ! 3) = None"
    using priceless_sorted_last [of priceAsc ?hs, THEN conjunct2, rule_format, of 2 3] a2 la by simp
  have d3: "price (sortedResults priceDesc ?hs ! 3) = None"
    using priceless_sorted_last [of priceDesc ?hs, THEN conjunct2, rule_format, of 2 3] d2 ld by simp
  show ?thesis using a2 a3 d2 d3 by blast
qed

section \<open>Verification: filter\<close>

lemma trim_all_space:
  assumes "\<forall>c\<in>set q. is_space c"
  shows "trim q = []"
proof -
  have d: "dropWhile is_space q = []" using assms by (simp add: dropWhile_eq_Nil_conv)
  show ?thesis unfolding trim_def d by simp
qed

text \<open>
  Claim C8. When the three bucket flags are true, the minimum and maximum price fields
  are empty and the merchant query is empty or consists of white space only, the filter
  returns the sorted sequence unchanged, whatever \<open>parseFloat\<close> would return.
\<close>

theorem default_filter_unchanged:
  assumes "labelFilter st Exact \<and> labelFilter st Sehr_aehnlich \<and> labelFilter st Alternative"
    and "priceMin st = []" "priceMax st = []"
    and "\<forall>c\<in>set (merchantSearch st). is_space c"
  shows "filteredResults parseFloat st sortedRes = sortedRes"
proof -
  have "labelFilter st b" for b using assms(1) by (cases b) simp_all
  then show ?thesis
    using assms(2,3) trim_all_space [OF assms(4)]
    by (simp add: filteredResults_def toLowerCase_def)
qed

theorem default_filter_unchanged_witness:
  "filteredResults (\<lambda>s. NaN) (initial_FilterState\<lparr>merchantSearch := ''  ''\<rparr>)
      [priced_hit 1 None, priced_hit 2 (Some 30)] = [priced_hit 1 None, priced_hit 2 (Some 30)]
   \<and> filteredResults (\<lambda>s. NaN) initial_FilterState
      [priced_hit 1 None, priced_hit 2 (Some 30)] = [priced_hit 1 None, priced_hit 2 (Some 30)]"
  using default_filter_unchanged [of "initial_FilterState\<lparr>merchantSearch := ''  ''\<rparr>" "\<lambda>s. NaN"
      "[priced_hit 1 None, priced_hit 2 (Some 30)]"]
    default_filter_unchanged [of initial_FilterState "\<lambda>s. NaN" "[priced_hit 1 None, priced_hit 2 (Some 30)]"]
  by (simp add: initial_FilterState_def is_space_def)

section \<open>Verification: paginate\<close>

lemma visibleCount_after_snoc:
  "visibleCount_after (evs @ [e]) = setVisibleCount e (visibleCount_after evs)"
  by (simp add: visibleCount_after_def)

lemma visibleCount_multiple: "\<exists>k. 0 < k \<and> visibleCount_after evs = 12 * k"
proof (induction evs rule: rev_induct)
  case Nil
  have "(0::nat) < 1 \<and> visibleCount_after [] = 12 * 1"
    by (simp add: visibleCount_after_def initial_visibleCount_def)
  then show ?case by blast
next
  case (snoc e evs)
  then obtain k where k: "0 < k" "visibleCount_after evs = 12 * k" by blast
  show ?case
  proof (cases e)
    case Reset
    then have "(0::nat) < 1 \<and> visibleCount_after (evs @ [e]) = 12 * 1"
      by (simp add: visibleCount_after_snoc)
    then show ?thesis by blast
  next
    case LoadMore
    then have "0 < Suc k \<and> visibleCount_after (evs @ [e]) = 12 * Suc k"
      using k by (simp add: visibleCount_after_snoc)
    then show ?thesis by blast
  qed
qed

text \<open>
  Claim C9. The visible count is 12 at the start. The button \<open>Mehr laden\<close> adds 12 to it
  and every other event sets it to 12 again, so that it changes by increments of 12 only
  and is always a positive multiple of 12. For every filtered sequence and every count
  \<open>n\<close> the visible slice is the first \<open>n\<close> items, its length is the minimum of \<open>n\<close> and
  the filtered length, and more can be loaded exactly when \<open>n\<close> is less than the filtered
  length, which is exactly when the visible slice is not yet the whole filtered sequence.
\<close>

theorem pagination_cursor:
  "visibleCount_after [] = 12
   \<and> visibleCount_after (evs @ [LoadMore]) = visibleCount_after evs + 12
   \<and> visibleCount_after (evs @ [Reset]) = 12
   \<and> (visibleCount_after (evs @ [e]) = 12 \<or> visibleCount_after (evs @ [e]) = visibleCount_after evs + 12)
   \<and> (\<exists>k. 0 < k \<and> visibleCount_after evs = 12 * k)
   \<and> visibleResults filtered n = take n filtered
   \<and> length (visibleResults filtered n) = min n (length filtered)
   \<and> canLoadMore filtered n = (n < length filtered)
   \<and> canLoadMore filtered n = (visibleResults filtered n \<noteq> filtered)"
proof -
  have step: "setVisibleCount e m = 12 \<or> setVisibleCount e m = m + 12" for m
    by (cases e) simp_all
  have "visibleCount_after [] = 12"
    by (simp add: visibleCount_after_def initial_visibleCount_def)
  moreover have "visibleCount_after (evs @ [LoadMore]) = visibleCount_after evs + 12"
    by (simp add: visibleCount_after_snoc)
  moreover have "visibleCount_after (evs @ [Reset]) = 12"
    by (simp add: visibleCount_after_snoc)
  moreover have "visibleCount_after (evs @ [e]) = 12
      \<or> visibleCount_after (evs @ [e]) = visibleCount_after evs + 12"
    using step by (simp add: visibleCount_after_snoc)
  moreover have "length (visibleResults filtered n) = min n (length filtered)"
    by (simp add: visibleResults_def min.commute)
  moreover have "canLoadMore filtered n = (visibleResults filtered n \<noteq> filtered)"
    by (simp add: canLoadMore_def visibleResults_def not_le)
  ultimately show ?thesis
    using visibleCount_multiple [of evs] by (simp add: visibleResults_def canLoadMore_def)
qed

section \<open>Verification: bucket normalization\<close>

text \<open>
  Claim C10. \<open>normalizeBucket\<close> gives the bucket \<open>Exact\<close> for the label \<open>Exact\<close> only and
  the bucket \<open>Sehr aehnlich\<close> for that label (written with a-umlaut) only; every other
  label is \<open>Alternative\<close>: the enum name \<open>VerySimilar\<close>, other casings, the spelling
  without umlaut, and an absent label.
\<close>

theorem normalizeBucket_exact_labels_only:
  "(normalizeBucket lbl = Exact) = (lbl = Some ''Exact'')
   \<and> (normalizeBucket lbl = Sehr_aehnlich) = (lbl = Some (''Sehr '' @ [CHR 0xE4] @ ''hnlich''))
   \<and> (normalizeBucket lbl = Alternative)
       = (lbl \<noteq> Some ''Exact'' \<and> lbl \<noteq> Some (''Sehr '' @ [CHR 0xE4] @ ''hnlich''))
   \<and> normalizeBucket (Some ''VerySimilar'') = Alternative
   \<and> normalizeBucket (Some ''exact'') = Alternative
   \<and> normalizeBucket (Some ''EXACT'') = Alternative
   \<and> normalizeBucket (Some (''sehr '' @ [CHR 0xE4] @ ''hnlich'')) = Alternative
   \<and> normalizeBucket (Some ''Sehr ahnlich'') = Alternative
   \<and> normalizeBucket (Some ''Alternative'') = Alternative
   \<and> normalizeBucket None = Alternative"
  by (simp add: normalizeBucket_def label_Exact_def label_Sehr_aehnlich_def)

end
